theory Spec2Isabelle
  imports Complex_Main "HOL-Library.Word" "HOL-Library.Log_Nat"
begin

section \<open>JavaScript numbers\<close>

text \<open>
  A JavaScript number is an IEEE 754 binary64 value. The finite ones are modelled by
  their exact rational value; every arithmetic operation of the source computes the
  exact result and rounds it to the nearest binary64 value, ties to even (\<open>fl\<close>).
  The rounding has 53 significant bits and no limit on the exponent: it is the rounding
  of binary64 wherever the exact result is zero or has a magnitude from \<open>2^-1022\<close> up to
  \<open>2^1024\<close>, the normal range; outside it the model neither underflows nor overflows,
  where binary64 does. Infinity and NaN have no rational value: where the source
  produces them, the model says so at that place.
\<close>

type_synonym num = rat

definition expo :: "rat \<Rightarrow> int" where
  \<comment> \<open>the binary exponent \<open>e\<close> of a non-zero \<open>q\<close>: \<open>2^e \<le> |q| < 2^(e+1)\<close>\<close>
  "expo q = (let a = \<bar>q\<bar> in
     if 1 \<le> a then int (floorlog 2 (nat \<lfloor>a\<rfloor>)) - 1
     else - int (floorlog 2 (nat (\<lceil>1 / a\<rceil> - 1))))"

definition rne :: "rat \<Rightarrow> int" where
  \<comment> \<open>round to the nearest integer, ties to even\<close>
  "rne x = (let f = \<lfloor>x\<rfloor>; d = x - of_int f in
     if d < 1 / 2 then f else if 1 / 2 < d then f + 1
     else if even f then f else f + 1)"

definition fl :: "rat \<Rightarrow> num" where
  \<comment> \<open>round to 53 significant bits\<close>
  "fl q = (if q = 0 then 0
           else let u = 2 powi (expo q - 52) in of_int (rne (q / u)) * u)"

definition fadd :: "num \<Rightarrow> num \<Rightarrow> num" where
  "fadd a b = fl (a + b)"

definition fsub :: "num \<Rightarrow> num \<Rightarrow> num" where
  "fsub a b = fl (a - b)"

definition fmul :: "num \<Rightarrow> num \<Rightarrow> num" where
  "fmul a b = fl (a * b)"

definition fdiv :: "num \<Rightarrow> num \<Rightarrow> num" where
  \<comment> \<open>for a divisor other than zero\<close>
  "fdiv a b = fl (a / b)"

definition byte :: "8 word \<Rightarrow> num" where
  \<comment> \<open>an element of a \<open>Uint8ClampedArray\<close> read as a number\<close>
  "byte w = of_nat (unat w)"

section \<open>Elevation decoding\<close>

datatype error = UnknownEncoding string | TypeError

text \<open>
  \<^verbatim>\<open>function decodeElevation(r, g, b, encoding) {
    if (encoding === 'terrarium') {
      return r * 256 + g + b / 256 - 32768;
    } else if (encoding === 'mapbox') {
      return -10000 + ((r * 256 * 256 + g * 256 + b) * 0.1);
    }
    throw new Error(`Unknown encoding: ${encoding}`);
  }\<close>
  The literal \<open>0.1\<close> is the binary64 value nearest to one tenth.
\<close>

definition decodeElevation :: "8 word \<Rightarrow> 8 word \<Rightarrow> 8 word \<Rightarrow> string \<Rightarrow> error + num" where
  "decodeElevation r g b encoding =
     (if encoding = ''terrarium'' then
        Inr (fsub (fadd (fadd (fmul (byte r) 256) (byte g)) (fdiv (byte b) 256)) 32768)
      else if encoding = ''mapbox'' then
        Inr (fadd (- 10000)
               (fmul (fadd (fadd (fmul (fmul (byte r) 256) 256) (fmul (byte g) 256)) (byte b))
                     (fl (1 / 10))))
      else Inl (UnknownEncoding encoding))"

section \<open>Contour generation\<close>

text \<open>
  A typed array read out of bounds yields \<open>undefined\<close> (here \<open>None\<close>); a write out of
  bounds is ignored, and \<open>undefined\<close> written into a \<open>Uint8ClampedArray\<close> is stored as 0.
\<close>

type_synonym bytes = "8 word list"

definition ta_get :: "bytes \<Rightarrow> int \<Rightarrow> 8 word option" where
  "ta_get a i = (if 0 \<le> i \<and> i < int (length a) then Some (a ! nat i) else None)"

definition ta_set :: "bytes \<Rightarrow> int \<Rightarrow> 8 word option \<Rightarrow> bytes" where
  "ta_set a i v =
     (if 0 \<le> i \<and> i < int (length a)
      then a[nat i := (case v of None \<Rightarrow> 0 | Some b \<Rightarrow> b)] else a)"

text \<open>
  The elevation of pixel \<open>i\<close>. A channel read out of bounds is \<open>undefined\<close>, and both
  formulas then evaluate to NaN, written \<open>None\<close>; an unknown encoding throws either way.
\<close>

definition pixelElevation :: "bytes \<Rightarrow> string \<Rightarrow> nat \<Rightarrow> error + num option" where
  "pixelElevation imageData encoding i =
     (let pixelIndex = int i * 4 in
      case (ta_get imageData pixelIndex, ta_get imageData (pixelIndex + 1),
            ta_get imageData (pixelIndex + 2)) of
        (Some r, Some g, Some b) \<Rightarrow>
          (case decodeElevation r g b encoding of
             Inl e \<Rightarrow> Inl e | Inr elevation \<Rightarrow> Inr (Some elevation))
      | _ \<Rightarrow>
          (if encoding = ''terrarium'' \<or> encoding = ''mapbox'' then Inr None
           else Inl (UnknownEncoding encoding)))"

text \<open>
  \<open>minEle\<close> and \<open>maxEle\<close> start as \<open>Infinity\<close> and \<open>-Infinity\<close> and become finite
  together, at the first elevation that is a number: the pair is \<open>None\<close> until then.
  NaN compares false and leaves both as they are.
\<close>

fun updateRange :: "num option \<Rightarrow> (num \<times> num) option \<Rightarrow> (num \<times> num) option" where
  "updateRange None bounds = bounds"
| "updateRange (Some elevation) None = Some (elevation, elevation)"
| "updateRange (Some elevation) (Some (minEle, maxEle)) =
     Some (if elevation < minEle then elevation else minEle,
           if elevation > maxEle then elevation else maxEle)"

fun decodeLoop ::
  "bytes \<Rightarrow> string \<Rightarrow> nat list \<Rightarrow> num option list \<times> (num \<times> num) option
     \<Rightarrow> error + num option list \<times> (num \<times> num) option" where
  "decodeLoop imageData encoding [] acc = Inr acc"
| "decodeLoop imageData encoding (i # rest) (elevations, bounds) =
     (case pixelElevation imageData encoding i of
        Inl e \<Rightarrow> Inl e
      | Inr elevation \<Rightarrow>
          decodeLoop imageData encoding rest
            (elevations @ [elevation], updateRange elevation bounds))"

text \<open>
  \<^verbatim>\<open>const minorStart = Math.ceil(minEle / minInterval) * minInterval;
  for (let ele = minorStart; ele <= maxEle; ele += minInterval) {
    thresholds.push(ele);
  }\<close>
  The loop need not end: once \<open>ele + minInterval\<close> rounds back to \<open>ele\<close>, or when
  \<open>minInterval\<close> is negative, it pushes for ever. Not returning is \<open>None\<close>. The array of
  thresholds is a list, with no limit on its length.
\<close>

partial_function (option) pushThresholds ::
  "num \<Rightarrow> num \<Rightarrow> num \<Rightarrow> num list \<Rightarrow> num list option" where
  "pushThresholds ele maxEle minInterval thresholds =
     (if ele \<le> maxEle
      then pushThresholds (fadd ele minInterval) maxEle minInterval (thresholds @ [ele])
      else Some thresholds)"

definition planThresholds :: "num \<Rightarrow> num \<Rightarrow> num \<Rightarrow> num list option" where
  \<comment> \<open>for finite \<open>minEle\<close>, \<open>maxEle\<close> and a \<open>minInterval\<close> other than zero\<close>
  "planThresholds minEle maxEle minInterval =
     pushThresholds (fmul (of_int \<lceil>fdiv minEle minInterval\<rceil>) minInterval)
       maxEle minInterval []"

text \<open>
  With no finite elevation \<open>minEle\<close> is \<open>Infinity\<close> and \<open>maxEle\<close> is \<open>-Infinity\<close>:
  \<open>minorStart\<close> is \<open>Infinity\<close> for an interval of either sign (\<open>Infinity / i\<close> has the
  sign of \<open>i\<close>, and so has the factor \<open>i\<close>), and the loop body never runs. With a zero
  interval \<open>minorStart\<close> is NaN, and the loop body never runs either.
\<close>

definition thresholdsOf :: "(num \<times> num) option \<Rightarrow> num \<Rightarrow> num list option" where
  "thresholdsOf bounds minInterval =
     (if minInterval = 0 then Some []
      else case bounds of
        None \<Rightarrow> Some []
      | Some (minEle, maxEle) \<Rightarrow> planThresholds minEle maxEle minInterval)"

text \<open>
  \<open>%\<close> is the remainder of the truncating division, with the sign of the dividend; it
  is exact in binary64. \<open>x % 0\<close> is NaN, and \<open>NaN < 0.01\<close> is false.
\<close>

definition js_rem :: "num \<Rightarrow> num \<Rightarrow> num" where
  "js_rem a b = a - b * of_int (if 0 \<le> a / b then \<lfloor>a / b\<rfloor> else \<lceil>a / b\<rceil>)"

definition classify :: "num \<Rightarrow> num \<Rightarrow> bool" where
  \<comment> \<open>\<^verbatim>\<open>Math.abs(feature.value % majorInterval) < 0.01\<close>\<close>
  "classify v majorInterval =
     (majorInterval \<noteq> 0 \<and> \<bar>js_rem v majorInterval\<bar> < fl (1 / 100))"

type_synonym ring = "(num \<times> num) list"

record feature =
  cvalue :: num
  coordinates :: "ring list list"

record contour = feature +
  isMajor :: bool

text \<open>
  The contour generator is the imported library d3-contour. Given thresholds as an
  array it sorts them ascending and returns one MultiPolygon per threshold, whose
  \<open>value\<close> is the threshold; the marching squares that trace its rings are the
  parameter \<open>trace\<close>.
\<close>

type_synonym tracer = "nat \<Rightarrow> nat \<Rightarrow> num option list \<Rightarrow> num \<Rightarrow> ring list list"

definition contours :: "tracer \<Rightarrow> nat \<Rightarrow> nat \<Rightarrow> num list \<Rightarrow> num option list \<Rightarrow> feature list" where
  "contours trace width height thresholds elevations =
     map (\<lambda>t. \<lparr>cvalue = t, coordinates = trace width height elevations t\<rparr>) (sort thresholds)"

datatype 'a outcome = Returns 'a | Throws error | Diverges

definition generateContours ::
  "tracer \<Rightarrow> bytes \<Rightarrow> nat \<Rightarrow> nat \<Rightarrow> string \<Rightarrow> num \<Rightarrow> num \<Rightarrow> contour list outcome" where
  "generateContours trace imageData width height encoding minInterval majorInterval =
     (case decodeLoop imageData encoding [0..<width * height] ([], None) of
        Inl e \<Rightarrow> Throws e
      | Inr (elevations, bounds) \<Rightarrow>
          (case thresholdsOf bounds minInterval of
             None \<Rightarrow> Diverges
           | Some thresholds \<Rightarrow>
               Returns (map (\<lambda>f. feature.extend f
                                \<lparr>isMajor = classify (cvalue f) majorInterval\<rparr>)
                          (contours trace width height thresholds elevations))))"

section \<open>Translation to tile coordinates\<close>

text \<open>
  \<^verbatim>\<open>function clipContoursToTile(contourFeatures, tileWidth, tileHeight, buffer)\<close>
  walks features, polygons, rings and points, pushing what it keeps: a translated point
  always, a ring of more than one point, a polygon and a feature with something left.
\<close>

definition clipRing :: "num \<Rightarrow> ring \<Rightarrow> ring" where
  "clipRing buffer ring =
     fold (\<lambda>(x, y) clippedRing.
             let tx = fsub x buffer; ty = fsub y buffer in clippedRing @ [(tx, ty)])
       ring []"

definition clipPolygon :: "num \<Rightarrow> ring list \<Rightarrow> ring list" where
  "clipPolygon buffer polygon =
     fold (\<lambda>ring clippedPolygon.
             let clippedRing = clipRing buffer ring in
             if length clippedRing > 1 then clippedPolygon @ [clippedRing] else clippedPolygon)
       polygon []"

definition clipCoordinates :: "num \<Rightarrow> ring list list \<Rightarrow> ring list list" where
  "clipCoordinates buffer coords =
     fold (\<lambda>polygon clippedCoordinates.
             let clippedPolygon = clipPolygon buffer polygon in
             if length clippedPolygon > 0 then clippedCoordinates @ [clippedPolygon]
             else clippedCoordinates)
       coords []"

definition clipContoursToTile :: "contour list \<Rightarrow> nat \<Rightarrow> nat \<Rightarrow> num \<Rightarrow> contour list" where
  "clipContoursToTile contourFeatures tileWidth tileHeight buffer =
     fold (\<lambda>feature clippedFeatures.
             if length (coordinates feature) = 0 then clippedFeatures
             else let clippedCoordinates = clipCoordinates buffer (coordinates feature) in
               if length clippedCoordinates > 0
               then clippedFeatures @ [feature\<lparr>coordinates := clippedCoordinates\<rparr>]
               else clippedFeatures)
       contourFeatures []"

section \<open>Vector tile encoding\<close>

definition js_round :: "num \<Rightarrow> int" where
  \<comment> \<open>\<open>Math.round\<close>: the nearest integer, a half goes up\<close>
  "js_round x = \<lfloor>x + 1 / 2\<rfloor>"

record vt_feature =
  geometry :: "(int \<times> int) list list"
  ftype :: nat
  tags :: "(string \<times> int) list"

record vt_tile =
  features :: "vt_feature list"
  numPoints :: nat
  numSimplified :: nat
  numFeatures :: nat
  tile_x :: int
  tile_y :: int
  tile_z :: int
  transformed :: bool
  minX :: int
  minY :: int
  maxX :: int
  maxY :: int

text \<open>
  The wire encoder is the imported library vt-pbf: \<open>vtpbf.fromGeojsonVt(layers, {version})\<close>
  takes the layers by name and returns the bytes. It is a parameter.
\<close>

type_synonym encoder = "(string \<times> vt_tile) list \<Rightarrow> nat \<Rightarrow> bytes"

definition ringGeometry :: "nat \<Rightarrow> nat \<Rightarrow> ring \<Rightarrow> (int \<times> int) list" where
  \<comment> \<open>for a width and a height other than zero; the extent is 4096\<close>
  "ringGeometry width height ring =
     fold (\<lambda>(px, py) geometry.
             let tileX = js_round (fmul (fdiv px (of_nat width)) 4096);
                 tileY = js_round (fmul (fdiv py (of_nat height)) 4096)
             in geometry @ [(tileX, tileY)])
       ring []"

definition buildFeatures :: "contour list \<Rightarrow> nat \<Rightarrow> nat \<Rightarrow> vt_feature list" where
  "buildFeatures contourFeatures width height =
     fold (\<lambda>contour features.
             if length (coordinates contour) = 0 then features
             else
               let ele = js_round (cvalue contour);
                   level = (if isMajor contour then 1 else 0)
               in fold (\<lambda>polygon features.
                          fold (\<lambda>ring features.
                                  let geometry = ringGeometry width height ring in
                                  if length geometry > 1
                                  then features @
                                         [\<lparr>geometry = [geometry], ftype = 2,
                                           tags = [(''ele'', ele), (''level'', level)]\<rparr>]
                                  else features)
                            polygon features)
                    (coordinates contour) features)
       contourFeatures []"

definition encodeMVT ::
  "encoder \<Rightarrow> contour list \<Rightarrow> nat \<Rightarrow> nat \<Rightarrow> int \<Rightarrow> int \<Rightarrow> int \<Rightarrow> bytes" where
  "encodeMVT vtpbf contourFeatures width height z x y =
     (let extent = 4096;
          features = buildFeatures contourFeatures width height;
          tile = \<lparr>features = features,
                  numPoints = fold (\<lambda>f sum. sum + length (hd (geometry f))) features 0,
                  numSimplified = 0,
                  numFeatures = length features,
                  tile_x = x, tile_y = y, tile_z = z,
                  transformed = False,
                  minX = 0, minY = 0, maxX = extent, maxY = extent\<rparr>
      in vtpbf [(''contours'', tile)] 2)"

section \<open>Neighbour tile assembly\<close>

record tile =
  tdata :: bytes
  twidth :: nat
  theight :: nat

text \<open>
  \<open>fetch z x y\<close> stands for \<open>pmtiles.getZxy\<close> followed by \<open>decodeImage\<close>, with no
  result and any exception of either collapsed to \<open>None\<close>, as the \<open>try\<close> block does.
\<close>

type_synonym fetcher = "int \<Rightarrow> int \<Rightarrow> int \<Rightarrow> tile option"

definition offsets :: "(int \<times> int) list" where
  \<comment> \<open>\<open>(dx, dy)\<close> in the order of the two loops, \<open>dy\<close> outside\<close>
  "offsets = concat (map (\<lambda>dy. map (\<lambda>dx. (dx, dy)) [- 1, 0, 1]) [- 1, 0, 1])"

definition fetchTileWithBuffer ::
  "fetcher \<Rightarrow> int \<Rightarrow> int \<Rightarrow> int \<Rightarrow> tile option list \<times> (int \<times> int) list" where
  "fetchTileWithBuffer fetch z x y =
     (map (\<lambda>(dx, dy). fetch z (x + dx) (y + dy)) offsets, offsets)"

definition copyPixel :: "bytes \<Rightarrow> int \<Rightarrow> bytes \<Rightarrow> int \<Rightarrow> bytes" where
  \<comment> \<open>\<open>dst[dstIdx + c] = src[srcIdx + c]\<close> for the four channels\<close>
  "copyPixel src srcIdx dst dstIdx =
     ta_set (ta_set (ta_set (ta_set dst dstIdx (ta_get src srcIdx))
                            (dstIdx + 1) (ta_get src (srcIdx + 1)))
                    (dstIdx + 2) (ta_get src (srcIdx + 2)))
            (dstIdx + 3) (ta_get src (srcIdx + 3))"

definition fillNeutral :: "nat \<Rightarrow> bytes" where
  \<comment> \<open>a new array of the given length, then \<open>for (i = 0; i < length; i += 4)\<close>\<close>
  "fillNeutral n =
     fold (\<lambda>k a. let i = int k * 4 in
             ta_set (ta_set (ta_set (ta_set a i (Some 128)) (i + 1) (Some 128))
                            (i + 2) (Some 128))
                    (i + 3) (Some 255))
       [0..<(n + 3) div 4] (replicate n 0)"

definition pasteTile :: "nat \<Rightarrow> nat \<Rightarrow> nat \<Rightarrow> tile \<Rightarrow> int \<times> int \<Rightarrow> bytes \<Rightarrow> bytes" where
  "pasteTile tileWidth tileHeight stitchedWidth tile pos stitchedData =
     (let offsetX = (fst pos + 1) * int tileWidth;
          offsetY = (snd pos + 1) * int tileHeight
      in fold (\<lambda>py a.
           fold (\<lambda>px a.
                  let srcIdx = (int py * int (twidth tile) + int px) * 4;
                      dstX = offsetX + int px;
                      dstY = offsetY + int py;
                      dstIdx = (dstY * int stitchedWidth + dstX) * 4
                  in copyPixel (tdata tile) srcIdx a dstIdx)
             [0..<twidth tile] a)
           [0..<theight tile] stitchedData)"

definition extractWindow :: "bytes \<Rightarrow> nat \<Rightarrow> int \<Rightarrow> int \<Rightarrow> nat \<Rightarrow> nat \<Rightarrow> bytes \<Rightarrow> bytes" where
  "extractWindow stitchedData stitchedWidth srcMinX srcMinY extractWidth extractHeight extractData =
     fold (\<lambda>y a.
       fold (\<lambda>x a.
              let srcX = srcMinX + int x;
                  srcY = srcMinY + int y;
                  srcIdx = (srcY * int stitchedWidth + srcX) * 4;
                  dstIdx = (int y * int extractWidth + int x) * 4
              in copyPixel stitchedData srcIdx a dstIdx)
         [0..<extractWidth] a)
       [0..<extractHeight] extractData"

text \<open>
  \<open>positions[i]\<close> beyond the end of \<open>positions\<close> is \<open>undefined\<close>, and reading its \<open>x\<close>
  throws a TypeError; this happens for the first tile present that has no position.
\<close>

record canvas =
  cdata :: bytes
  cwidth :: nat
  cheight :: nat
  tileWidth :: nat
  tileHeight :: nat
  buffer :: nat

definition stitchTiles ::
  "tile option list \<Rightarrow> (int \<times> int) list \<Rightarrow> nat \<Rightarrow> error + canvas option" where
  "stitchTiles tiles positions bufferPixels =
     (case find (\<lambda>t. t \<noteq> None) tiles of
        Some (Some validTile) \<Rightarrow>
          if list_ex (\<lambda>t. t \<noteq> None) (drop (length positions) tiles) then Inl TypeError
          else
            let tileWidth = twidth validTile;
                tileHeight = theight validTile;
                extractWidth = tileWidth + bufferPixels * 2;
                extractHeight = tileHeight + bufferPixels * 2;
                extractData = fillNeutral (extractWidth * extractHeight * 4);
                stitchedWidth = tileWidth * 3;
                centerOffsetX = tileWidth;
                centerOffsetY = tileHeight;
                srcMinX = int centerOffsetX - int bufferPixels;
                srcMinY = int centerOffsetY - int bufferPixels;
                stitchedData = fillNeutral (stitchedWidth * stitchedWidth * 4);
                stitchedData =
                  fold (\<lambda>(tile, pos) a.
                          case tile of None \<Rightarrow> a
                          | Some t \<Rightarrow> pasteTile tileWidth tileHeight stitchedWidth t pos a)
                    (zip tiles positions) stitchedData;
                extractData =
                  extractWindow stitchedData stitchedWidth srcMinX srcMinY
                    extractWidth extractHeight extractData
            in Inr (Some \<lparr>cdata = extractData, cwidth = extractWidth, cheight = extractHeight,
                          tileWidth = tileWidth, tileHeight = tileHeight,
                          buffer = bufferPixels\<rparr>)
      | _ \<Rightarrow> Inr None)"

section \<open>The tile request and the start of the server\<close>

datatype response = Status404 | Status204 | Status200 bytes | Status500

text \<open>
  The handler of \<open>GET /:tileset/:z/:x/:y.mvt\<close>. Every exception inside it is caught and
  answered with status 500; a contour generation that does not return gives no response.
\<close>

definition tileRequest ::
  "(string \<rightharpoonup> fetcher) \<Rightarrow> string \<Rightarrow> num \<Rightarrow> num \<Rightarrow> tracer \<Rightarrow> encoder
     \<Rightarrow> string \<Rightarrow> int \<Rightarrow> int \<Rightarrow> int \<Rightarrow> response option" where
  "tileRequest tilesets ENCODING CONTOUR_INTERVAL MAJOR_INTERVAL trace vtpbf tileset z x y =
     (case tilesets tileset of
        None \<Rightarrow> Some Status404
      | Some pmtiles \<Rightarrow>
          let (tiles, positions) = fetchTileWithBuffer pmtiles z x y;
              bufferPixels = 1
          in case stitchTiles tiles positions bufferPixels of
               Inl e \<Rightarrow> Some Status500
             | Inr None \<Rightarrow> Some Status404
             | Inr (Some stitched) \<Rightarrow>
                 (case generateContours trace (cdata stitched) (cwidth stitched)
                         (cheight stitched) ENCODING CONTOUR_INTERVAL MAJOR_INTERVAL of
                    Diverges \<Rightarrow> None
                  | Throws e \<Rightarrow> Some Status500
                  | Returns contourFeatures \<Rightarrow>
                      let clippedFeatures =
                            clipContoursToTile contourFeatures (tileWidth stitched)
                              (tileHeight stitched) (of_nat (buffer stitched));
                          mvtBuffer =
                            encodeMVT vtpbf clippedFeatures (tileWidth stitched)
                              (tileHeight stitched) z x y
                      in if length mvtBuffer = 0 then Some Status204
                         else Some (Status200 mvtBuffer)))"

text \<open>
  The start of the server: the directory argument is checked, the directory is read,
  the configuration is taken from the environment, the server listens. Each check that
  fails ends the process with exit code 1. \<open>ENCODING\<close> is
  \<^verbatim>\<open>process.env.ENCODING || 'terrarium'\<close>; an unset and an empty variable are falsy.
\<close>

datatype startup = Exit nat | Listening string

definition readENCODING :: "(string \<rightharpoonup> string) \<Rightarrow> string" where
  "readENCODING env =
     (case env ''ENCODING'' of
        None \<Rightarrow> ''terrarium''
      | Some v \<Rightarrow> if v = [] then ''terrarium'' else v)"

definition startServer ::
  "string option \<Rightarrow> bool option \<Rightarrow> string list \<Rightarrow> (string \<rightharpoonup> string) \<Rightarrow> startup" where
  \<comment> \<open>the first argument, whether it is a directory (\<open>None\<close>: \<open>stat\<close> throws), the
      \<open>.pmtiles\<close> files in it, the environment\<close>
  "startServer pmtilesDir isDirectory pmtilesFiles env =
     (if pmtilesDir = None \<or> pmtilesDir = Some [] then Exit 1
      else if isDirectory \<noteq> Some True then Exit 1
      else if length pmtilesFiles = 0 then Exit 1
      else Listening (readENCODING env))"

section \<open>Sample inputs\<close>

text \<open>
  A grid of 11 columns and 2 rows in the Terrarium encoding whose elevation ramps
  from 0 to 100 across the width: the pixel in column \<open>j\<close> is \<open>(128, 10 j, 0, 255)\<close>, of
  elevation \<open>10 j\<close>.
\<close>

definition rampRow :: bytes where
  "rampRow = concat (map (\<lambda>j. [128, of_nat (10 * j), 0, 255]) [0..<11])"

definition rampGrid :: bytes where
  "rampGrid = rampRow @ rampRow"

text \<open>A tracer for closed statements: one ring, the outline of the grid, at every threshold.\<close>

definition outlineTracer :: tracer where
  "outlineTracer width height elevations t =
     [[[(0, 0), (of_nat width, 0), (of_nat width, of_nat height), (0, of_nat height), (0, 0)]]]"

definition levels :: "contour list outcome \<Rightarrow> (num \<times> bool) list" where
  \<comment> \<open>the value and the class of each level returned\<close>
  "levels r = (case r of Returns cs \<Rightarrow> map (\<lambda>c. (cvalue c, isMajor c)) cs | _ \<Rightarrow> [])"

section \<open>The translator, in the words of the specification\<close>

text \<open>
  Subtracting the buffer from every coordinate with no rounding and no clamping; adding
  the buffer back to every coordinate; the rings of two or more points, in the polygons
  that keep at least one.
\<close>

definition exactTranslate :: "num \<Rightarrow> ring list list \<Rightarrow> ring list list" where
  "exactTranslate b coords = map (map (map (\<lambda>(x, y). (x - b, y - b)))) coords"

definition unclip :: "num \<Rightarrow> ring list list \<Rightarrow> ring list list" where
  "unclip b coords = map (map (map (\<lambda>(x, y). (fadd x b, fadd y b)))) coords"

definition survivingRings :: "ring list list \<Rightarrow> ring list list" where
  "survivingRings coords = filter (\<lambda>p. p \<noteq> []) (map (filter (\<lambda>r. 1 < length r)) coords)"

text \<open>
  A binary64 value with \<open>g\<close> fractional bits and magnitude below \<open>2^(52-g)\<close>: integers and
  half-integer pixel coordinates are of this kind.
\<close>

definition fixedPoint :: "nat \<Rightarrow> num \<Rightarrow> bool" where
  "fixedPoint g q \<longleftrightarrow> of_int \<lfloor>q * 2 ^ g\<rfloor> = q * 2 ^ g \<and> \<bar>q\<bar> * 2 ^ g < 2 ^ 52"

definition fixedPointCoords :: "nat \<Rightarrow> ring list list \<Rightarrow> bool" where
  "fixedPointCoords g coords \<longleftrightarrow>
     list_all (list_all (list_all (\<lambda>(x, y). fixedPoint g x \<and> fixedPoint g y))) coords"

section \<open>The encoder's features, in the words of the specification\<close>

text \<open>
  Every point rescaled to \<open>round(x / tileWidth * extent)\<close>, \<open>round(y / tileHeight * extent)\<close>
  with extent 4096; one line-string feature (type 2) for every ring of two or more
  points of every level, with the integer attributes \<open>ele\<close> and \<open>level\<close>.
\<close>

definition rescale :: "nat \<Rightarrow> nat \<Rightarrow> num \<times> num \<Rightarrow> int \<times> int" where
  "rescale w h p =
     (js_round (fl (fl (fst p / of_nat w) * 4096)), js_round (fl (fl (snd p / of_nat h) * 4096)))"

definition lineFeatures :: "contour list \<Rightarrow> nat \<Rightarrow> nat \<Rightarrow> vt_feature list" where
  "lineFeatures cs w h =
     concat (map (\<lambda>c.
       concat (map (\<lambda>polygon.
         map (\<lambda>ring. \<lparr>geometry = [map (rescale w h) ring], ftype = 2,
                       tags = [(''ele'', js_round (cvalue c)),
                               (''level'', if isMajor c then 1 else 0)]\<rparr>)
           (filter (\<lambda>ring. 1 < length ring) polygon))
         (coordinates c)))
       cs)"

text \<open>
  An encoder for closed statements. It writes for every layer what vt-pbf's
  \<open>writeLayer\<close> writes before the features, the version (field 15), the name (field 1)
  and the extent 4096 (field 5), inside a layer message (field 3), and then one empty
  feature message (field 2) for every feature.
\<close>

definition layerHeaderEncoder :: encoder where
  "layerHeaderEncoder layers version =
     concat (map (\<lambda>(name, tile).
       let body = [0x78, of_nat version] @ [0x0A, of_nat (length name)]
                  @ map (\<lambda>c. of_nat (of_char c)) name @ [0x28, 0x80, 0x20]
                  @ concat (map (\<lambda>f. [0x12, 0x00]) (features tile))
       in [0x1A, of_nat (length body)] @ body) layers)"

section \<open>Sample tiles\<close>

text \<open>
  Tiles for closed statements: one pixel of elevation 0 in the Terrarium encoding, and
  a tile of width 1 and height 2. A raster source that has a tile at \<open>x = 0\<close>, \<open>y = 0\<close>
  only, and a tracer that finds no ring.
\<close>

definition pixelTile :: tile where
  "pixelTile = \<lparr>tdata = [128, 0, 0, 255], twidth = 1, theight = 1\<rparr>"

definition tallTile :: tile where
  "tallTile = \<lparr>tdata = [128, 0, 0, 255, 128, 1, 0, 255], twidth = 1, theight = 2\<rparr>"

definition onlyCenter :: "tile \<Rightarrow> fetcher" where
  "onlyCenter t z x y = (if x = 0 \<and> y = 0 then Some t else None)"

definition noRings :: tracer where
  "noRings width height elevations t = []"

text \<open>The canvas assembled around \<open>pixelTile\<close> when its eight neighbours are missing.\<close>

definition pixelCanvas :: canvas where
  "pixelCanvas = \<lparr>cdata = [128,128,128,255, 128,128,128,255, 128,128,128,255,
                             128,128,128,255, 128,0,0,255, 128,128,128,255,
                             128,128,128,255, 128,128,128,255, 128,128,128,255],
                    cwidth = 3, cheight = 3, tileWidth = 1, tileHeight = 1, buffer = 1\<rparr>"

text \<open>
  A tile of one pixel of elevation 125 in the Terrarium encoding, and the canvas
  assembled around it when its eight neighbours are missing.
\<close>

definition flatTile :: tile where
  "flatTile = \<lparr>tdata = [128, 125, 0, 255], twidth = 1, theight = 1\<rparr>"

definition flatCanvas :: canvas where
  "flatCanvas = \<lparr>cdata = [128,128,128,255, 128,128,128,255, 128,128,128,255,
                            128,128,128,255, 128,125,0,255, 128,128,128,255,
                            128,128,128,255, 128,128,128,255, 128,128,128,255],
                   cwidth = 3, cheight = 3, tileWidth = 1, tileHeight = 1, buffer = 1\<rparr>"

text \<open>The tile that \<open>encodeMVT\<close> builds when it has no feature.\<close>

definition noFeaturesTile :: "int \<Rightarrow> int \<Rightarrow> int \<Rightarrow> vt_tile" where
  "noFeaturesTile z x y =
     \<lparr>features = [], numPoints = 0, numSimplified = 0, numFeatures = 0,
      tile_x = x, tile_y = y, tile_z = z, transformed = False,
      minX = 0, minY = 0, maxX = 4096, maxY = 4096\<rparr>"

section \<open>Sentinel cells\<close>

text \<open>Pixel \<open>k\<close> of an RGBA array is the neutral sentinel \<open>(128,128,128,255)\<close>.\<close>

definition sentinelAt :: "bytes \<Rightarrow> nat \<Rightarrow> bool" where
  "sentinelAt a k \<longleftrightarrow>
     4 * k + 3 < length a \<and> a ! (4 * k) = 128 \<and> a ! (4 * k + 1) = 128
     \<and> a ! (4 * k + 2) = 128 \<and> a ! (4 * k + 3) = 255"

text \<open>The elevation that the Mapbox formula gives to the sentinel.\<close>

definition sentinelMapbox :: num where
  "sentinelMapbox = fl (- 10000 + fl (8421504 * fl (1 / 10)))"

text \<open>A raster source with no tile at all.\<close>

definition noTiles :: fetcher where
  "noTiles z x y = None"

text \<open>The elevation of pixel \<open>i\<close> where decoding does not throw, NaN being \<open>None\<close>.\<close>

definition elevationOf :: "bytes \<Rightarrow> string \<Rightarrow> nat \<Rightarrow> num option" where
  "elevationOf d enc i = (case pixelElevation d enc i of Inr v \<Rightarrow> v | Inl e \<Rightarrow> None)"

section \<open>Properties of the rounding\<close>

lemma expo_lower:
  assumes "q \<noteq> 0"
  shows "2 powi (expo q) \<le> \<bar>q\<bar>"
proof (cases "1 \<le> \<bar>q\<bar>")
  case True
  define n where "n = nat \<lfloor>\<bar>q\<bar>\<rfloor>"
  have npos: "0 < n" using True by (simp add: n_def)
  define L where "L = floorlog 2 n"
  have Lpos: "0 < L" using npos by (simp add: L_def floorlog_def)
  have b: "2 ^ (L - 1) \<le> n" using floorlog_bounds[of n 2] npos by (simp add: L_def)
  have e: "expo q = int (L - 1)" using True Lpos by (simp add: expo_def n_def L_def Let_def)
  have "(2::rat) powi (expo q) = of_nat (2 ^ (L - 1))" by (simp add: e)
  also have "\<dots> \<le> of_nat n" using b by (simp only: of_nat_le_iff)
  also have "\<dots> = of_int \<lfloor>\<bar>q\<bar>\<rfloor>" using True by (simp add: n_def)
  also have "\<dots> \<le> \<bar>q\<bar>" by simp
  finally show ?thesis .
next
  case False
  define a where "a = \<bar>q\<bar>"
  have a: "0 < a" "a < 1" using False assms by (auto simp: a_def)
  define c where "c = \<lceil>1 / a\<rceil>"
  have t1: "1 < 1 / a" using a by simp
  have c2: "2 \<le> c" using t1 unfolding c_def by linarith
  define L where "L = floorlog 2 (nat (c - 1))"
  have "nat (c - 1) < 2 ^ L" using floorlog_bounds[of "nat (c - 1)" 2] c2 by (simp add: L_def)
  then have "c - 1 < 2 ^ L" using c2 by (simp add: nat_less_iff)
  then have "c \<le> 2 ^ L" by simp
  then have "(of_int c :: rat) \<le> 2 ^ L" by (metis of_int_le_iff of_int_numeral of_int_power)
  moreover have "1 / a \<le> of_int c" unfolding c_def by simp
  ultimately have "1 / a \<le> 2 ^ L" by linarith
  then have "1 \<le> 2 ^ L * a" using a by (simp add: field_simps)
  then have "1 / 2 ^ L \<le> a" by (simp add: field_simps)
  moreover have "expo q = - int L" using False by (simp add: expo_def Let_def L_def c_def a_def)
  ultimately show ?thesis by (simp add: power_int_minus_divide a_def)
qed

lemma expo_upper:
  assumes "q \<noteq> 0"
  shows "\<bar>q\<bar> < 2 powi (expo q + 1)"
proof (cases "1 \<le> \<bar>q\<bar>")
  case True
  define n where "n = nat \<lfloor>\<bar>q\<bar>\<rfloor>"
  have npos: "0 < n" using True by (simp add: n_def)
  define L where "L = floorlog 2 n"
  have b: "n < 2 ^ L" using floorlog_bounds[of n 2] npos by (simp add: L_def)
  have e: "expo q + 1 = int L" using True by (simp add: expo_def n_def L_def Let_def)
  have "\<lfloor>\<bar>q\<bar>\<rfloor> < 2 ^ L" using b True by (simp add: n_def nat_less_iff)
  then have "\<bar>q\<bar> < of_int (2 ^ L)" by (simp only: floor_less_iff)
  then show ?thesis by (simp add: e)
next
  case False
  define a where "a = \<bar>q\<bar>"
  have a: "0 < a" "a < 1" using False assms by (auto simp: a_def)
  define c where "c = \<lceil>1 / a\<rceil>"
  have t1: "1 < 1 / a" using a by simp
  have c2: "2 \<le> c" using t1 unfolding c_def by linarith
  define L where "L = floorlog 2 (nat (c - 1))"
  have Lpos: "0 < L" using c2 by (simp add: L_def floorlog_def)
  have "2 ^ (L - 1) \<le> nat (c - 1)"
    using floorlog_bounds[of "nat (c - 1)" 2] c2 by (simp add: L_def)
  then have "2 ^ (L - 1) \<le> c - 1" using c2 by (simp add: le_nat_iff)
  then have "(2::rat) ^ (L - 1) \<le> of_int (c - 1)"
    by (metis of_int_le_iff of_int_numeral of_int_power)
  moreover have "of_int (c - 1) < 1 / a" unfolding c_def by linarith
  ultimately have "2 ^ (L - 1) < 1 / a" by linarith
  then have "a * 2 ^ (L - 1) < 1" using a by (simp add: field_simps)
  then have "a < 1 / 2 ^ (L - 1)" by (simp add: field_simps)
  moreover have "expo q + 1 = - int (L - 1)"
    using False Lpos by (simp add: expo_def Let_def L_def c_def a_def)
  ultimately show ?thesis by (simp add: power_int_minus_divide a_def)
qed

lemma powi2_less_cancel: "(2::rat) powi a < 2 powi b \<Longrightarrow> a < b"
  using power_int_increasing[of b a "2::rat"] by (cases "a < b") auto

lemma expo_unique:
  assumes "2 powi e \<le> \<bar>q\<bar>" "\<bar>q\<bar> < 2 powi (e + 1)"
  shows "expo q = e"
proof -
  have "(0::rat) < 2 powi e" by simp
  then have "0 < \<bar>q\<bar>" using assms(1) by linarith
  then have q0: "q \<noteq> 0" by simp
  have "(2::rat) powi (expo q) < 2 powi (e + 1)" using expo_lower[OF q0] assms(2) by linarith
  then have 1: "expo q < e + 1" by (rule powi2_less_cancel)
  have "(2::rat) powi e < 2 powi (expo q + 1)" using expo_upper[OF q0] assms(1) by linarith
  then have 2: "e < expo q + 1" by (rule powi2_less_cancel)
  show ?thesis using 1 2 by simp
qed

lemma rne_of_int: "rne (of_int m) = m"
  by (simp add: rne_def)

lemma rne_err: "\<bar>of_int (rne x) - x\<bar> \<le> 1 / 2"
proof -
  have "of_int \<lfloor>x\<rfloor> \<le> x" "x < of_int \<lfloor>x\<rfloor> + 1" by linarith+
  then show ?thesis unfolding rne_def Let_def
    by (cases "x - of_int \<lfloor>x\<rfloor> < 1 / 2"; cases "1 / 2 < x - of_int \<lfloor>x\<rfloor>";
        cases "even \<lfloor>x\<rfloor>"; simp; linarith)
qed

lemma rne_eqI:
  assumes "\<bar>x - of_int m\<bar> < 1 / 2"
  shows "rne x = m"
proof -
  have "\<bar>(of_int (rne x) :: rat) - of_int m\<bar> < 1" using rne_err[of x] assms by linarith
  then have "\<bar>(of_int (rne x - m) :: rat)\<bar> < 1" by simp
  then have "\<bar>rne x - m\<bar> < 1" by (metis of_int_abs of_int_less_1_iff)
  then show ?thesis by simp
qed

text \<open>A value with at most 53 significant bits is not changed by the rounding.\<close>

lemma fl_exact:
  assumes "\<bar>m\<bar> < 2 ^ 53"
  shows "fl (of_int m * 2 powi k) = of_int m * 2 powi k"
proof (cases "m = 0")
  case True
  then show ?thesis by (simp add: fl_def)
next
  case False
  define q :: rat where "q = of_int m * 2 powi k"
  have q0: "q \<noteq> 0" using False by (simp add: q_def)
  define e where "e = expo q"
  have "(of_int \<bar>m\<bar> :: rat) < of_int (2 ^ 53)" using assms by (simp only: of_int_less_iff)
  then have "\<bar>of_int m :: rat\<bar> < 2 ^ 53" by simp
  then have "\<bar>q\<bar> < 2 ^ 53 * 2 powi k"
    by (simp add: q_def abs_mult)
  also have "\<dots> = 2 powi (53 + k)" by (simp add: power_int_add)
  finally have "(2::rat) powi e < 2 powi (53 + k)"
    using expo_lower[OF q0] by (simp add: e_def)
  then have ek: "e < 53 + k" by (rule powi2_less_cancel)
  define j where "j = nat (k - e + 52)"
  have j: "int j = k - (e - 52)" using ek by (simp add: j_def)
  have "q / 2 powi (e - 52) = of_int m * 2 powi (k - (e - 52))"
    by (simp add: q_def power_int_diff)
  also have "\<dots> = of_int m * 2 ^ j" by (simp flip: j)
  also have "\<dots> = of_int (m * 2 ^ j)" by simp
  finally have "rne (q / 2 powi (e - 52)) = m * 2 ^ j" by (simp only: rne_of_int)
  then have "fl q = of_int (m * 2 ^ j) * 2 powi (e - 52)"
    using q0 by (simp add: fl_def Let_def e_def)
  also have "\<dots> = of_int m * (2 powi (int j) * 2 powi (e - 52))" by simp
  also have "2 powi (int j) * 2 powi (e - 52) = (2::rat) powi k"
    by (simp add: j flip: power_int_add)
  finally show ?thesis by (simp add: q_def)
qed

lemma fl_of_int: "\<bar>m\<bar> < 2 ^ 53 \<Longrightarrow> fl (of_int m) = of_int m"
  using fl_exact[of m 0] by simp

lemma fl_of_int_div: "\<bar>m\<bar> < 2 ^ 53 \<Longrightarrow> fl (of_int m / 2 ^ k) = of_int m / 2 ^ k"
  using fl_exact[of m "- int k"] by (simp add: power_int_minus_divide)

text \<open>The relative error of one rounding is at most \<open>2^-53\<close>.\<close>

lemma fl_err: "\<bar>fl q - q\<bar> \<le> \<bar>q\<bar> / 2 ^ 53"
proof (cases "q = 0")
  case True
  then show ?thesis by (simp add: fl_def)
next
  case False
  define u :: rat where "u = 2 powi (expo q - 52)"
  have u0: "0 < u" by (simp add: u_def)
  have "fl q - q = (of_int (rne (q / u)) - q / u) * u"
    using False u0 by (simp add: fl_def Let_def u_def field_simps)
  then have "\<bar>fl q - q\<bar> = \<bar>of_int (rne (q / u)) - q / u\<bar> * u"
    using u0 by (simp add: abs_mult)
  also have "\<dots> \<le> (1 / 2) * u"
    using rne_err[of "q / u"] u0 by (intro mult_right_mono) auto
  also have "\<dots> = 2 powi (expo q) / 2 ^ 53"
    by (simp add: u_def power_int_diff)
  also have "\<dots> \<le> \<bar>q\<bar> / 2 ^ 53"
    using expo_lower[OF False] by (simp add: divide_right_mono)
  finally show ?thesis .
qed

text \<open>Evaluation of one rounding from the exponent and the rounded significand.\<close>

lemma fl_eval:
  assumes "2 powi e \<le> \<bar>q\<bar>" "\<bar>q\<bar> < 2 powi (e + 1)"
    and "\<bar>q / 2 powi (e - 52) - of_int m\<bar> < 1 / 2"
  shows "fl q = of_int m * 2 powi (e - 52)"
proof -
  have "(0::rat) < 2 powi e" by simp
  then have "0 < \<bar>q\<bar>" using assms(1) by linarith
  then have q0: "q \<noteq> 0" by simp
  have "expo q = e" using assms(1,2) by (rule expo_unique)
  then show ?thesis using q0 rne_eqI[OF assms(3)] by (simp add: fl_def Let_def)
qed

lemma fl_tenth: "fl (1 / 10) = 3602879701896397 / 36028797018963968"
proof -
  have "fl (1 / 10) = of_int 7205759403792794 * 2 powi (- 4 - 52)"
    by (rule fl_eval) simp_all
  then show ?thesis by simp
qed

section \<open>The elevation decoder\<close>

lemma fl_idI:
  assumes "q = of_int m * 2 powi k" "\<bar>m\<bar> < 2 ^ 53"
  shows "fl q = q"
  using fl_exact[OF assms(2), of k] assms(1) by simp

lemma byte_cases:
  obtains n where "byte w = of_int n" "0 \<le> n" "n < 256"
proof -
  have "uint w < 2 ^ LENGTH(8)" by (rule uint_bounded)
  then have "uint w < 256" by simp
  moreover have "byte w = of_int (uint w)" by (simp add: byte_def)
  moreover have "0 \<le> uint w" by simp
  ultimately show ?thesis using that by blast
qed

lemma terrarium_exact:
  "decodeElevation r g b ''terrarium'' =
     Inr (byte r * 256 + byte g + byte b / 256 - 32768)"
proof -
  obtain R where br: "byte r = of_int R" and R: "0 \<le> R" "R < 256" by (rule byte_cases)
  obtain G where bg: "byte g = of_int G" and G: "0 \<le> G" "G < 256" by (rule byte_cases)
  obtain B where bb: "byte b = of_int B" and B: "0 \<le> B" "B < 256" by (rule byte_cases)
  have 1: "fl (of_int R * 256) = of_int R * 256"
    by (rule fl_idI[of _ "R * 256" 0]) (use R in simp_all)
  have 2: "fl (of_int R * 256 + of_int G) = of_int R * 256 + of_int G"
    by (rule fl_idI[of _ "R * 256 + G" 0]) (use R G in simp_all)
  have 3: "fl (of_int B / 256) = of_int B / 256"
    by (rule fl_idI[of _ B "- 8"]) (use B in simp_all)
  have 4: "fl (of_int R * 256 + of_int G + of_int B / 256)
             = of_int R * 256 + of_int G + of_int B / 256"
    by (rule fl_idI[of _ "(R * 256 + G) * 256 + B" "- 8"]) (use R G B in simp_all)
  have 5: "fl (of_int R * 256 + of_int G + of_int B / 256 - 32768)
             = of_int R * 256 + of_int G + of_int B / 256 - 32768"
    by (rule fl_idI[of _ "(R * 256 + G) * 256 + B - 8388608" "- 8"]) (use R G B in simp_all)
  have "decodeElevation r g b ''terrarium''
          = Inr (fsub (fadd (fadd (fmul (byte r) 256) (byte g)) (fdiv (byte b) 256)) 32768)"
    by (simp add: decodeElevation_def)
  then show ?thesis
    by (simp only: fsub_def fadd_def fmul_def fdiv_def br bg bb 1 2 3 4 5)
qed

lemma mapbox_code:
  "fadd (fadd (fmul (fmul (byte r) 256) 256) (fmul (byte g) 256)) (byte b)
     = byte r * 65536 + byte g * 256 + byte b"
proof -
  obtain R where br: "byte r = of_int R" and R: "0 \<le> R" "R < 256" by (rule byte_cases)
  obtain G where bg: "byte g = of_int G" and G: "0 \<le> G" "G < 256" by (rule byte_cases)
  obtain B where bb: "byte b = of_int B" and B: "0 \<le> B" "B < 256" by (rule byte_cases)
  have 1: "fl (of_int R * 256) = of_int R * 256"
    by (rule fl_idI[of _ "R * 256" 0]) (use R in simp_all)
  have 2: "fl (of_int R * 256 * 256) = of_int R * 65536"
    using fl_idI[of "of_int R * 256 * 256" "R * 65536" 0] R by simp
  have 3: "fl (of_int G * 256) = of_int G * 256"
    by (rule fl_idI[of _ "G * 256" 0]) (use G in simp_all)
  have 4: "fl (of_int R * 65536 + of_int G * 256) = of_int R * 65536 + of_int G * 256"
    by (rule fl_idI[of _ "R * 65536 + G * 256" 0]) (use R G in simp_all)
  have 5: "fl (of_int R * 65536 + of_int G * 256 + of_int B)
             = of_int R * 65536 + of_int G * 256 + of_int B"
    by (rule fl_idI[of _ "R * 65536 + G * 256 + B" 0]) (use R G B in simp_all)
  show ?thesis
    by (simp only: fadd_def fmul_def br bg bb 1 2 3 4 5)
qed

lemma byte_numeral_simps: "byte 0 = 0" "byte 1 = 1" "byte 128 = 128"
  by (simp_all add: byte_def)

text \<open>
  C1. For every RGB byte triple the decoder returns exactly
  \<open>r*256 + g + b/256 - 32768\<close> under the Terrarium encoding: no operation of the
  expression rounds, and the fractional part \<open>b/256\<close> is kept. Under the Mapbox encoding it
  returns \<open>-10000 + (r*65536 + g*256 + b) * 0.1\<close> evaluated in binary64: the integer
  \<open>r*65536 + g*256 + b\<close> is exact, the product with the binary64 constant \<open>0.1\<close> and the
  sum round once each. Terrarium \<open>(128,0,0)\<close> decodes to \<open>0\<close> and Mapbox \<open>(0,0,0)\<close> to
  \<open>-10000\<close>.
\<close>

theorem decodeElevation_formulas:
  "decodeElevation r g b ''terrarium''
     = Inr (byte r * 256 + byte g + byte b / 256 - 32768)
   \<and> decodeElevation r g b ''mapbox''
     = Inr (fl (- 10000 + fl ((byte r * 65536 + byte g * 256 + byte b) * fl (1 / 10))))
   \<and> decodeElevation 128 0 0 ''terrarium'' = Inr 0
   \<and> decodeElevation 0 0 0 ''mapbox'' = Inr (- 10000)
   \<and> decodeElevation 0 0 1 ''terrarium'' = Inr (- 32768 + 1 / 256)"
proof -
  have m: "\<And>r g b. decodeElevation r g b ''mapbox''
     = Inr (fl (- 10000 + fl ((byte r * 65536 + byte g * 256 + byte b) * fl (1 / 10))))"
    unfolding decodeElevation_def mapbox_code by (simp add: fadd_def fmul_def)
  have z: "fl (- 10000) = - 10000" using fl_of_int[of "- 10000"] by simp
  have m0: "decodeElevation 0 0 0 ''mapbox'' = Inr (- 10000)"
    by (simp add: m fl_def[of 0] z byte_numeral_simps)
  have t0: "decodeElevation 128 0 0 ''terrarium'' = Inr 0"
    by (simp add: terrarium_exact byte_numeral_simps)
  have t1: "decodeElevation 0 0 1 ''terrarium'' = Inr (- 32768 + 1 / 256)"
    by (simp add: terrarium_exact byte_numeral_simps)
  show ?thesis using terrarium_exact[of r g b] m[of r g b] m0 t0 t1 by simp
qed

section \<open>The major/minor classifier\<close>

lemma fl_hundredth: "fl (1 / 100) = 5764607523034235 / 576460752303423488"
proof -
  have "fl (1 / 100) = of_int 5764607523034235 * 2 powi (- 7 - 52)"
    by (rule fl_eval) simp_all
  then show ?thesis by simp
qed

lemma js_rem_multiple: "M \<noteq> 0 \<Longrightarrow> js_rem (of_int j * M) M = 0"
  by (simp add: js_rem_def)

lemma js_rem_half:
  assumes "0 < M"
  shows "\<bar>js_rem (of_int j * M + M / 2) M\<bar> = M / 2"
proof -
  have q: "(of_int j * M + M / 2) / M = of_int j + 1 / 2"
    using assms by (simp add: field_simps)
  have fl: "\<lfloor>(of_int j :: rat) + 1 / 2\<rfloor> = j" by linarith
  have ce: "\<lceil>(of_int j :: rat) + 1 / 2\<rceil> = j + 1" by linarith
  show ?thesis
  proof (cases "0 \<le> (of_int j :: rat) + 1 / 2")
    case True
    then have "js_rem (of_int j * M + M / 2) M = M / 2"
      unfolding js_rem_def q by (simp add: fl algebra_simps)
    then show ?thesis using assms by simp
  next
    case False
    then have "js_rem (of_int j * M + M / 2) M = - (M / 2)"
      unfolding js_rem_def q by (simp add: ce algebra_simps)
    then show ?thesis using assms by simp
  qed
qed

text \<open>
  C3, as the code has it. For a positive \<open>majorInterval\<close> \<open>M\<close> a level is major exactly
  when \<open>|v % M| < 0.01\<close>, with the remainder of JavaScript and the binary64 constant
  \<open>0.01\<close>. Every exact multiple of \<open>M\<close> is major. A value \<open>M/2\<close> away from a multiple
  of \<open>M\<close> has remainder \<open>M/2\<close> in magnitude: it is minor exactly when \<open>M/2\<close> is not below
  \<open>0.01\<close>, so for every \<open>M\<close> from 1 on (every positive integer, what \<open>parseInt\<close> gives).
\<close>

theorem classify_rule:
  assumes "0 < M"
  shows "(classify v M \<longleftrightarrow> \<bar>js_rem v M\<bar> < fl (1 / 100))
       \<and> classify (of_int j * M) M
       \<and> (classify (of_int j * M + M / 2) M \<longleftrightarrow> M / 2 < fl (1 / 100))
       \<and> (1 \<le> M \<longrightarrow> \<not> classify (of_int j * M + M / 2) M)"
proof -
  have M0: "M \<noteq> 0" using assms by simp
  have c: "0 < fl (1 / 100)" by (simp add: fl_hundredth)
  have 1: "classify v M \<longleftrightarrow> \<bar>js_rem v M\<bar> < fl (1 / 100)"
    using M0 by (simp add: classify_def)
  have 2: "classify (of_int j * M) M"
    using M0 c by (simp add: classify_def js_rem_multiple)
  have 3: "classify (of_int j * M + M / 2) M \<longleftrightarrow> M / 2 < fl (1 / 100)"
    using M0 by (simp add: classify_def js_rem_half[OF assms])
  have "fl (1 / 100) \<le> M / 2" if "1 \<le> M"
    using that by (simp add: fl_hundredth)
  then have 4: "1 \<le> M \<longrightarrow> \<not> classify (of_int j * M + M / 2) M"
    unfolding 3 by auto
  show ?thesis using 1 2 3 4 by blast
qed

text \<open>The theorem at \<open>M = 50\<close>: 100 is major, 75 is minor.\<close>

theorem classify_rule_witness:
  "(0::rat) < 50 \<and> classify (of_int 2 * 50) 50 \<and> \<not> classify (of_int 1 * 50 + 50 / 2) 50"
  using classify_rule[of 50 0 2] classify_rule[of 50 0 1] by (simp add: fl_hundredth)

text \<open>
  C3 as stated fails for a small positive interval: with \<open>M = 1/128\<close> the value \<open>1/256\<close>
  is \<open>M/2\<close> away from the multiples \<open>0\<close> and \<open>M\<close>, and is classified major.
\<close>

theorem classify_half_counterexample:
  "(0::rat) < 1 / 128 \<and> classify (of_int 0 * (1 / 128) + (1 / 128) / 2) (1 / 128)"
proof -
  have "\<bar>js_rem (of_int 0 * (1 / 128) + (1 / 128) / 2) (1 / 128)\<bar> = (1 / 128) / 2"
    by (rule js_rem_half) simp
  then show ?thesis by (simp add: classify_def fl_hundredth)
qed

section \<open>The threshold planner\<close>

text \<open>
  The quotient \<open>minEle / minInterval\<close> rounds, but never across an integer: for a binary64
  \<open>x\<close> below \<open>2^53\<close> in magnitude and a positive integer \<open>k\<close>, the rounded quotient has
  the ceiling of the exact one.
\<close>

lemma ceil_fl_div:
  assumes m: "x = of_int a / 2 ^ g" and a: "\<bar>a\<bar> < 2 ^ 53" and k: "0 < k"
  shows "\<lceil>fl (x / of_int k)\<rceil> = \<lceil>x / of_int k\<rceil>"
proof -
  define q :: rat where "q = x / of_int k"
  define D :: rat where "D = of_int k * 2 ^ g"
  have D0: "0 < D" using k by (simp add: D_def)
  have qD: "q = of_int a / D" by (simp add: q_def D_def m)
  have k1: "(1::rat) \<le> of_int k" using k by simp
  have "(1::rat) * 1 \<le> of_int k * 2 ^ g"
    by (rule mult_mono) (use k1 in auto)
  then have D1: "1 \<le> D" by (simp add: D_def)
  have "(of_int \<bar>a\<bar> :: rat) < of_int (2 ^ 53)" using a by (simp only: of_int_less_iff)
  then have absa: "\<bar>of_int a :: rat\<bar> < 2 ^ 53" by simp
  have absq: "\<bar>q\<bar> \<le> \<bar>of_int a\<bar>"
  proof -
    have "\<bar>q\<bar> = \<bar>of_int a\<bar> / D" using D0 by (simp add: qD)
    also have "\<dots> \<le> \<bar>of_int a\<bar> / 1" using D1 by (intro divide_left_mono) auto
    finally show ?thesis by simp
  qed
  show ?thesis
  proof (cases "q \<in> \<int>")
    case True
    then obtain n where n: "q = of_int n" by (auto elim: Ints_cases)
    have "\<bar>(of_int n :: rat)\<bar> < 2 ^ 53" using absq absa n by simp
    then have "(of_int \<bar>n\<bar> :: rat) < of_int (2 ^ 53)" by simp
    then have "\<bar>n\<bar> < 2 ^ 53" by (simp only: of_int_less_iff)
    then have "fl q = q" unfolding n by (rule fl_of_int)
    then show ?thesis by (simp add: q_def)
  next
    case False
    define c where "c = \<lceil>q\<rceil>"
    have lo: "of_int (c - 1) < q" unfolding c_def by linarith
    have "q \<le> of_int c" unfolding c_def by linarith
    moreover have "q \<noteq> of_int c" using False by auto
    ultimately have hi: "q < of_int c" by simp
    have gap: "1 / D \<le> q - of_int n" if "of_int n < q" for n
    proof -
      have e1: "(of_int (a - n * k * 2 ^ g) :: rat) = of_int a - of_int n * D"
        by (simp add: D_def)
      have e2: "q - of_int n = (of_int a - of_int n * D) / D"
        using D0 by (simp add: qD diff_divide_distrib)
      have e3: "q - of_int n = of_int (a - n * k * 2 ^ g) / D"
        unfolding e1 by (rule e2)
      have "0 < q - of_int n" using that by simp
      with e3 have "0 < (of_int (a - n * k * 2 ^ g) :: rat)"
        using D0 by (simp add: zero_less_divide_iff)
      then have "0 < a - n * k * 2 ^ g" by (simp only: of_int_0_less_iff)
      then have "1 \<le> a - n * k * 2 ^ g" by linarith
      then have "(1::rat) \<le> of_int (a - n * k * 2 ^ g)" by (simp only: of_int_1_le_iff)
      then have "1 / D \<le> of_int (a - n * k * 2 ^ g) / D"
        using D0 by (simp add: divide_right_mono)
      then show ?thesis by (simp only: e3)
    qed
    have gap': "1 / D \<le> of_int n - q" if "q < of_int n" for n
    proof -
      have e1: "(of_int (n * k * 2 ^ g - a) :: rat) = of_int n * D - of_int a"
        by (simp add: D_def)
      have e2: "of_int n - q = (of_int n * D - of_int a) / D"
        using D0 by (simp add: qD diff_divide_distrib)
      have e3: "of_int n - q = of_int (n * k * 2 ^ g - a) / D"
        unfolding e1 by (rule e2)
      have "0 < of_int n - q" using that by simp
      with e3 have "0 < (of_int (n * k * 2 ^ g - a) :: rat)"
        using D0 by (simp add: zero_less_divide_iff)
      then have "0 < n * k * 2 ^ g - a" by (simp only: of_int_0_less_iff)
      then have "1 \<le> n * k * 2 ^ g - a" by linarith
      then have "(1::rat) \<le> of_int (n * k * 2 ^ g - a)" by (simp only: of_int_1_le_iff)
      then have "1 / D \<le> of_int (n * k * 2 ^ g - a) / D"
        using D0 by (simp add: divide_right_mono)
      then show ?thesis by (simp only: e3)
    qed
    have "\<bar>fl q - q\<bar> \<le> \<bar>q\<bar> / 2 ^ 53" by (rule fl_err)
    also have "\<dots> = (\<bar>of_int a\<bar> / 2 ^ 53) / D" using D0 by (simp add: qD)
    also have "\<dots> < 1 / D" using absa D0 by (intro divide_strict_right_mono) auto
    finally have err: "\<bar>fl q - q\<bar> < 1 / D" .
    have "of_int (c - 1) < fl q" using gap[OF lo] err by linarith
    moreover have "fl q < of_int c" using gap'[OF hi] err by linarith
    ultimately have "\<lceil>fl q\<rceil> = c" by linarith
    then show ?thesis by (simp add: c_def q_def)
  qed
qed

lemma pushThresholds_exact:
  assumes k: "0 < k" and hi: "maxEle + of_int k \<le> 2 ^ 52"
  shows "- (2 ^ 52) \<le> c * k \<Longrightarrow>
         n = nat (\<lfloor>maxEle / of_int k\<rfloor> - c + 1) \<Longrightarrow>
         pushThresholds (of_int (c * k)) maxEle (of_int k) acc
           = Some (acc @ map (\<lambda>j. of_int ((c + int j) * k)) [0..<n])"
proof (induction n arbitrary: c acc)
  case 0
  then have "\<lfloor>maxEle / of_int k\<rfloor> < c" by simp
  then have "maxEle / of_int k < of_int c" by (simp only: floor_less_iff)
  then have "maxEle < of_int c * of_int k" using k by (simp add: pos_divide_less_eq)
  then have "\<not> (of_int (c * k) \<le> maxEle)" by simp
  then show ?case by (subst pushThresholds.simps) simp
next
  case (Suc n)
  then have "c \<le> \<lfloor>maxEle / of_int k\<rfloor>" by simp
  then have "of_int c \<le> maxEle / of_int k" by (simp only: le_floor_iff)
  then have le: "of_int c * of_int k \<le> maxEle" using k by (simp add: pos_le_divide_eq)
  then have le': "(of_int (c * k) :: rat) \<le> maxEle" by simp
  have "(of_int ((c + 1) * k) :: rat) = of_int c * of_int k + of_int k" by (simp add: algebra_simps)
  also have "\<dots> \<le> 2 ^ 52" using le hi by linarith
  finally have "(of_int ((c + 1) * k) :: rat) \<le> of_int (2 ^ 52)" by simp
  then have up: "(c + 1) * k \<le> 2 ^ 52" by (simp only: of_int_le_iff)
  have "c * k \<le> (c + 1) * k" using k by (simp add: algebra_simps)
  then have low: "- (2 ^ 52) \<le> (c + 1) * k" using Suc.prems(1) by linarith
  have "\<bar>(c + 1) * k\<bar> < 2 ^ 53" using up low by simp
  then have "fl (of_int ((c + 1) * k)) = of_int ((c + 1) * k)" by (rule fl_of_int)
  moreover have "(of_int (c * k) + of_int k :: rat) = of_int ((c + 1) * k)"
    by (simp add: algebra_simps)
  ultimately have step: "fadd (of_int (c * k)) (of_int k) = of_int ((c + 1) * k)"
    by (simp only: fadd_def)
  have n: "n = nat (\<lfloor>maxEle / of_int k\<rfloor> - (c + 1) + 1)" using Suc.prems(2) by simp
  have "pushThresholds (of_int (c * k)) maxEle (of_int k) acc
          = pushThresholds (of_int ((c + 1) * k)) maxEle (of_int k) (acc @ [of_int (c * k)])"
    by (subst pushThresholds.simps) (simp only: le' step if_True)
  also have "\<dots> = Some ((acc @ [of_int (c * k)])
                       @ map (\<lambda>j. of_int ((c + 1 + int j) * k)) [0..<n])"
    by (rule Suc.IH[OF low n])
  also have "(acc @ [of_int (c * k)]) @ map (\<lambda>j. of_int ((c + 1 + int j) * k)) [0..<n]
               = acc @ map (\<lambda>j. (of_int ((c + int j) * k) :: rat)) [0..<Suc n]"
    by (simp add: upt_conv_Cons map_Suc_upt[symmetric] del: upt_Suc)
  finally show ?case .
qed


lemma ceiling_times:
  fixes x :: rat
  assumes "0 < k"
  shows "x \<le> of_int (\<lceil>x / of_int k\<rceil> * k)" "of_int (\<lceil>x / of_int k\<rceil> * k) < x + of_int k"
proof -
  have k0: "(0::rat) < of_int k" using assms by simp
  have "x / of_int k \<le> of_int \<lceil>x / of_int k\<rceil>" by linarith
  then have "x \<le> of_int \<lceil>x / of_int k\<rceil> * of_int k"
    using pos_divide_le_eq[OF k0, of x "of_int \<lceil>x / of_int k\<rceil>"] by blast
  then show "x \<le> of_int (\<lceil>x / of_int k\<rceil> * k)" by simp
  have "of_int \<lceil>x / of_int k\<rceil> < x / of_int k + 1" by linarith
  then have "of_int \<lceil>x / of_int k\<rceil> * of_int k < (x / of_int k + 1) * of_int k"
    using k0 by (simp only: mult_less_cancel_right_pos)
  also have "\<dots> = x + of_int k" using k0 by (simp add: algebra_simps)
  finally show "of_int (\<lceil>x / of_int k\<rceil> * k) < x + of_int k" by simp
qed

lemma planThresholds_closed_form:
  assumes k: "0 < k" and m: "minEle = of_int a / 2 ^ g" and a: "\<bar>a\<bar> < 2 ^ 53"
    and lo: "\<bar>minEle\<bar> + of_int k \<le> 2 ^ 52" and hi: "maxEle + of_int k \<le> 2 ^ 52"
  shows "planThresholds minEle maxEle (of_int k)
           = Some (map (\<lambda>j. of_int ((\<lceil>minEle / of_int k\<rceil> + int j) * k))
                     [0..<nat (\<lfloor>maxEle / of_int k\<rfloor> - \<lceil>minEle / of_int k\<rceil> + 1)])"
proof -
  define c where "c = \<lceil>minEle / of_int k\<rceil>"
  have c: "\<lceil>fdiv minEle (of_int k)\<rceil> = c"
    unfolding fdiv_def c_def using m a k by (rule ceil_fl_div)
  have b1: "minEle \<le> of_int (c * k)" and b2: "of_int (c * k) < minEle + of_int k"
    unfolding c_def using ceiling_times[OF k, of minEle] by simp_all
  have "(of_int (c * k) :: rat) < of_int (2 ^ 52)" using b2 lo by simp
  then have up: "c * k < 2 ^ 52" by (simp only: of_int_less_iff)
  have "(of_int (- (2 ^ 52)) :: rat) \<le> of_int (c * k)" using b1 lo k by simp
  then have low: "- (2 ^ 52) \<le> c * k" by (simp only: of_int_le_iff)
  have "\<bar>c * k\<bar> < 2 ^ 53" using up low by simp
  then have "fl (of_int (c * k)) = of_int (c * k)" by (rule fl_of_int)
  then have start: "fmul (of_int c) (of_int k) = of_int (c * k)" by (simp add: fmul_def)
  show ?thesis
    unfolding planThresholds_def c start
    using pushThresholds_exact[OF k hi low refl, of "[]"] by (simp add: c_def)
qed


lemma pushThresholds_stop: "\<not> ele \<le> maxEle \<Longrightarrow> pushThresholds ele maxEle i acc = Some acc"
  by (subst pushThresholds.simps) simp




section \<open>The ramp scenario\<close>

lemma rampGrid_eq: "rampGrid =
  [128,0,0,255, 128,10,0,255, 128,20,0,255, 128,30,0,255, 128,40,0,255, 128,50,0,255,
   128,60,0,255, 128,70,0,255, 128,80,0,255, 128,90,0,255, 128,100,0,255,
   128,0,0,255, 128,10,0,255, 128,20,0,255, 128,30,0,255, 128,40,0,255, 128,50,0,255,
   128,60,0,255, 128,70,0,255, 128,80,0,255, 128,90,0,255, 128,100,0,255]"
  by (simp add: rampGrid_def rampRow_def upt_conv_Cons)

lemma idx22: "[0..<22] = [0,1,2,3,4,5,6,7,8,9,10,11,12,13,14,15,16,17,18,19,20,21]"
  by (simp add: upt_conv_Cons)

lemma ramp_decode:
  "decodeLoop rampGrid ''terrarium'' [0..<22] ([], None)
     = Inr ([Some 0, Some 10, Some 20, Some 30, Some 40, Some 50, Some 60, Some 70, Some 80,
             Some 90, Some 100,
             Some 0, Some 10, Some 20, Some 30, Some 40, Some 50, Some 60, Some 70, Some 80,
             Some 90, Some 100], Some (0, 100))"
  unfolding idx22 rampGrid_eq
  by (simp add: pixelElevation_def ta_get_def terrarium_exact byte_def)


lemma ramp_thresholds:
  "planThresholds 0 100 10 = Some [0, 10, 20, 30, 40, 50, 60, 70, 80, 90, 100]"
proof -
  have h: "(0::int) < 10" "(0::rat) = of_int 0 / 2 ^ 0" "\<bar>0::int\<bar> < 2 ^ 53"
    "\<bar>0::rat\<bar> + of_int 10 \<le> 2 ^ 52" "(100::rat) + of_int 10 \<le> 2 ^ 52"
    by simp_all
  from planThresholds_closed_form[OF h]
  show ?thesis by (simp add: upt_conv_Cons)
qed

lemma js_rem_pos:
  assumes "0 < b" "0 \<le> r" "r < b" "0 \<le> q"
  shows "js_rem (of_int q * b + r) b = r"
proof -
  have d: "(of_int q * b + r) / b = of_int q + r / b" using assms(1) by (simp add: field_simps)
  have "0 \<le> r / b" "r / b < 1" using assms by simp_all
  then have f: "\<lfloor>of_int q + r / b\<rfloor> = q" by linarith
  have "0 \<le> of_int q + r / b" using assms by simp
  then show ?thesis unfolding js_rem_def d by (simp add: f)
qed

lemma ramp_levels:
  "levels (generateContours trace rampGrid 11 2 ''terrarium'' 10 50)
     = [(0, True), (10, False), (20, False), (30, False), (40, False), (50, True),
        (60, False), (70, False), (80, False), (90, False), (100, True)]"
proof -
  have cl: "classify 0 50" "\<not> classify 10 50" "\<not> classify 20 50" "\<not> classify 30 50"
    "\<not> classify 40 50" "classify 50 50" "\<not> classify 60 50" "\<not> classify 70 50"
    "\<not> classify 80 50" "\<not> classify 90 50" "classify 100 50"
    using js_rem_pos[of 50 0 0] js_rem_pos[of 50 10 0] js_rem_pos[of 50 20 0]
      js_rem_pos[of 50 30 0] js_rem_pos[of 50 40 0] js_rem_pos[of 50 0 1]
      js_rem_pos[of 50 10 1] js_rem_pos[of 50 20 1] js_rem_pos[of 50 30 1]
      js_rem_pos[of 50 40 1] js_rem_pos[of 50 0 2]
    by (simp_all add: classify_def fl_hundredth)
  have n: "(11::nat) * 2 = 22" by simp
  show ?thesis
    unfolding generateContours_def n ramp_decode
    by (simp add: thresholdsOf_def ramp_thresholds contours_def levels_def
          feature.extend_def cl)
qed

text \<open>
  C9, as the code has it. On the ramp grid with \<open>minInterval = 10\<close> and
  \<open>majorInterval = 50\<close> the minimum elevation is 0, so the thresholds start at
  \<open>ceil(0 / 10) * 10 = 0\<close>: the levels are 0, 10, ..., 100, eleven of them, whatever the
  tracer; 0, 50 and 100 are major and the others minor.
\<close>

theorem ramp_levels_code:
  "levels (generateContours trace rampGrid 11 2 ''terrarium'' 10 50)
     = [(0, True), (10, False), (20, False), (30, False), (40, False), (50, True),
        (60, False), (70, False), (80, False), (90, False), (100, True)]"
  by (rule ramp_levels)

text \<open>
  C9 as stated fails: the values of the levels produced are not the set
  \<open>{10, 20, ..., 100}\<close>, since level 0 is among them.
\<close>

theorem ramp_levels_counterexample:
  "fst ` set (levels (generateContours outlineTracer rampGrid 11 2 ''terrarium'' 10 50))
     \<noteq> {10, 20, 30, 40, 50, 60, 70, 80, 90, 100}"
proof -
  have "(0::rat) \<in> fst ` set (levels (generateContours outlineTracer rampGrid 11 2 ''terrarium'' 10 50))"
    unfolding ramp_levels by simp
  moreover have "(0::rat) \<notin> {10, 20, 30, 40, 50, 60, 70, 80, 90, 100}" by simp
  ultimately show ?thesis by metis
qed

section \<open>The coordinate translator\<close>

lemma clipRing_acc:
  "fold (\<lambda>(x, y) clippedRing.
           let tx = fsub x b; ty = fsub y b in clippedRing @ [(tx, ty)]) ring acc
     = acc @ map (\<lambda>(x, y). (fsub x b, fsub y b)) ring"
  by (induction ring arbitrary: acc) (auto simp: Let_def)

lemma clipRing_map: "clipRing b ring = map (\<lambda>(x, y). (fsub x b, fsub y b)) ring"
  unfolding clipRing_def clipRing_acc by simp

lemma clipPolygon_acc:
  "fold (\<lambda>ring clippedPolygon.
           let clippedRing = clipRing b ring in
           if length clippedRing > 1 then clippedPolygon @ [clippedRing] else clippedPolygon)
     polygon acc
     = acc @ map (clipRing b) (filter (\<lambda>r. 1 < length r) polygon)"
  by (induction polygon arbitrary: acc) (auto simp: Let_def clipRing_map)

lemma clipPolygon_filter:
  "clipPolygon b polygon = map (clipRing b) (filter (\<lambda>r. 1 < length r) polygon)"
  unfolding clipPolygon_def clipPolygon_acc by simp

lemma clipCoordinates_acc:
  "fold (\<lambda>polygon clippedCoordinates.
           let clippedPolygon = clipPolygon b polygon in
           if length clippedPolygon > 0 then clippedCoordinates @ [clippedPolygon]
           else clippedCoordinates)
     coords acc
     = acc @ filter (\<lambda>p. p \<noteq> []) (map (clipPolygon b) coords)"
  by (induction coords arbitrary: acc) (auto simp: Let_def)

lemma clipCoordinates_filter:
  "clipCoordinates b coords = filter (\<lambda>p. p \<noteq> []) (map (clipPolygon b) coords)"
  unfolding clipCoordinates_def clipCoordinates_acc by simp

lemma clipCoordinates_survivors:
  "clipCoordinates b coords = map (map (clipRing b)) (survivingRings coords)"
  by (induction coords) (auto simp: clipCoordinates_filter clipPolygon_filter survivingRings_def)

lemma clipContoursToTile_acc:
  "fold (\<lambda>feature clippedFeatures.
           if length (coordinates feature) = 0 then clippedFeatures
           else let clippedCoordinates = clipCoordinates b (coordinates feature) in
             if length clippedCoordinates > 0
             then clippedFeatures @ [feature\<lparr>coordinates := clippedCoordinates\<rparr>]
             else clippedFeatures)
     (fs :: contour list) acc
     = acc @ map (\<lambda>f. f\<lparr>coordinates := clipCoordinates b (coordinates f)\<rparr>)
               (filter (\<lambda>f. survivingRings (coordinates f) \<noteq> []) fs)"
proof -
  define step where "step = (\<lambda>(feature::contour) clippedFeatures.
           if length (coordinates feature) = 0 then clippedFeatures
           else let clippedCoordinates = clipCoordinates b (coordinates feature) in
             if length clippedCoordinates > 0
             then clippedFeatures @ [feature\<lparr>coordinates := clippedCoordinates\<rparr>]
             else clippedFeatures)"
  have e: "clipCoordinates b (coordinates f) = [] \<longleftrightarrow> survivingRings (coordinates f) = []"
    for f :: contour
    by (simp add: clipCoordinates_survivors)
  have n: "coordinates f = [] \<Longrightarrow> survivingRings (coordinates f) = []" for f :: contour
    by (simp add: survivingRings_def)
  have one: "step f acc = acc @ (if survivingRings (coordinates f) \<noteq> []
                                then [f\<lparr>coordinates := clipCoordinates b (coordinates f)\<rparr>]
                                else [])" for f acc
    using e[of f] n[of f] by (auto simp: step_def Let_def)
  have "fold step fs acc
          = acc @ map (\<lambda>f. f\<lparr>coordinates := clipCoordinates b (coordinates f)\<rparr>)
                    (filter (\<lambda>f. survivingRings (coordinates f) \<noteq> []) fs)"
    by (induction fs arbitrary: acc) (simp_all add: one)
  then show ?thesis unfolding step_def .
qed

lemma clipContoursToTile_filter:
  "clipContoursToTile fs w h b
     = map (\<lambda>f. f\<lparr>coordinates := clipCoordinates b (coordinates f)\<rparr>)
         (filter (\<lambda>f. survivingRings (coordinates f) \<noteq> []) fs)"
  unfolding clipContoursToTile_def clipContoursToTile_acc by simp

lemma fixedPoint_sub:
  assumes "fixedPoint g x" "fixedPoint g b"
  shows "fsub x b = x - b"
proof -
  define a where "a = \<lfloor>x * 2 ^ g\<rfloor>"
  define c where "c = \<lfloor>b * 2 ^ g\<rfloor>"
  have fx: "of_int \<lfloor>x * 2 ^ g\<rfloor> = x * 2 ^ g" and fb: "of_int \<lfloor>b * 2 ^ g\<rfloor> = b * 2 ^ g"
    and small: "\<bar>x\<bar> * 2 ^ g < 2 ^ 52" "\<bar>b\<bar> * 2 ^ g < 2 ^ 52"
    using assms unfolding fixedPoint_def by blast+
  have xa: "x * 2 ^ g = of_int a" unfolding a_def by (rule fx[symmetric])
  have bc: "b * 2 ^ g = of_int c" unfolding c_def by (rule fb[symmetric])
  have "\<bar>x * 2 ^ g\<bar> < 2 ^ 52" "\<bar>b * 2 ^ g\<bar> < 2 ^ 52"
    using small by (simp_all add: abs_mult)
  then have "\<bar>(of_int a :: rat)\<bar> < 2 ^ 52" "\<bar>(of_int c :: rat)\<bar> < 2 ^ 52"
    by (simp_all only: xa bc)
  then have "\<bar>(of_int (a - c) :: rat)\<bar> < 2 ^ 53" by simp
  then have "(of_int \<bar>a - c\<bar> :: rat) < of_int (2 ^ 53)" by simp
  then have bound: "\<bar>a - c\<bar> < 2 ^ 53" by (simp only: of_int_less_iff)
  have "(x - b) * 2 ^ g = of_int (a - c)" using xa bc by (simp add: algebra_simps)
  then have "x - b = of_int (a - c) / 2 ^ g" by (simp add: field_simps)
  then have "x - b = of_int (a - c) * 2 powi (- int g)" by (simp add: power_int_minus_divide)
  then show ?thesis unfolding fsub_def using bound by (rule fl_idI)
qed

lemma fixedPoint_fl:
  assumes "fixedPoint g x"
  shows "fl x = x"
proof -
  define a where "a = \<lfloor>x * 2 ^ g\<rfloor>"
  have fx: "of_int \<lfloor>x * 2 ^ g\<rfloor> = x * 2 ^ g" and small: "\<bar>x\<bar> * 2 ^ g < 2 ^ 52"
    using assms unfolding fixedPoint_def by blast+
  have xa: "x * 2 ^ g = of_int a" unfolding a_def by (rule fx[symmetric])
  have "\<bar>x * 2 ^ g\<bar> < 2 ^ 52" using small by (simp add: abs_mult)
  then have "\<bar>(of_int a :: rat)\<bar> < 2 ^ 53" by (simp only: xa) simp
  then have "(of_int \<bar>a\<bar> :: rat) < of_int (2 ^ 53)" by simp
  then have bound: "\<bar>a\<bar> < 2 ^ 53" by (simp only: of_int_less_iff)
  have "x = of_int a / 2 ^ g" using xa by (simp add: field_simps)
  then have "x = of_int a * 2 powi (- int g)" by (simp add: power_int_minus_divide)
  then show ?thesis using bound by (rule fl_idI)
qed

lemma fixedPoint_roundtrip:
  assumes "fixedPoint g x" "fixedPoint g b"
  shows "fadd (fsub x b) b = x"
  using fixedPoint_sub[OF assms] fixedPoint_fl[OF assms(1)] by (simp add: fadd_def)


lemma ring_translate:
  assumes "fixedPoint g b" "list_all (\<lambda>(x, y). fixedPoint g x \<and> fixedPoint g y) r"
  shows "clipRing b r = map (\<lambda>(x, y). (x - b, y - b)) r"
    and "map (\<lambda>(x, y). (fadd x b, fadd y b)) (clipRing b r) = r"
  using assms(2)
  by (induction r)
     (auto simp: clipRing_map fixedPoint_sub[OF _ assms(1)] fixedPoint_roundtrip[OF _ assms(1)]
        simp flip: fixedPoint_sub[OF _ assms(1)])

lemma polygon_translate:
  assumes "fixedPoint g b" "list_all (list_all (\<lambda>(x, y). fixedPoint g x \<and> fixedPoint g y)) p"
  shows "map (clipRing b) p = map (map (\<lambda>(x, y). (x - b, y - b))) p"
  using assms(2) by (induction p) (simp_all add: ring_translate(1)[OF assms(1)])

lemma polygon_roundtrip:
  assumes "fixedPoint g b" "list_all (list_all (\<lambda>(x, y). fixedPoint g x \<and> fixedPoint g y)) p"
  shows "map (map (\<lambda>(x, y). (fadd x b, fadd y b))) (map (clipRing b) p) = p"
  using assms(2) by (induction p) (simp_all add: ring_translate(2)[OF assms(1)])

lemma coords_translate:
  assumes "fixedPoint g b" "fixedPointCoords g cs"
  shows "map (map (clipRing b)) cs = exactTranslate b cs"
  using assms(2) unfolding fixedPointCoords_def exactTranslate_def
  by (induction cs) (simp_all add: polygon_translate[OF assms(1)])

lemma coords_roundtrip:
  assumes "fixedPoint g b" "fixedPointCoords g cs"
  shows "unclip b (map (map (clipRing b)) cs) = cs"
  using assms(2) unfolding fixedPointCoords_def unclip_def
  by (induction cs) (simp_all add: polygon_roundtrip[OF assms(1)] del: map_map)

lemma fixedPointCoords_survivors:
  "fixedPointCoords g cs \<Longrightarrow> fixedPointCoords g (survivingRings cs)"
  unfolding fixedPointCoords_def survivingRings_def
  by (induction cs) (auto simp: list_all_iff)

text \<open>
  C5, as the code has it. The translator computes \<open>x - buffer\<close> and \<open>y - buffer\<close> in
  binary64 and clamps nothing. For a buffer and coordinates with \<open>g\<close> fractional bits and
  magnitude below \<open>2^(52-g)\<close> the subtraction is exact, negative results included, and
  adding the buffer back to every coordinate of the features returned gives the
  original rings of two or more points. Only rings of fewer than two points are
  dropped, with the polygons and features left empty; values and classes are kept.
\<close>

theorem clip_roundtrip:
  assumes b: "fixedPoint g b" and cs: "\<forall>f \<in> set fs. fixedPointCoords g (coordinates f)"
  shows "map coordinates (clipContoursToTile fs w h b)
           = map (\<lambda>f. exactTranslate b (survivingRings (coordinates f)))
               (filter (\<lambda>f. survivingRings (coordinates f) \<noteq> []) fs)
       \<and> map (\<lambda>f. unclip b (coordinates f)) (clipContoursToTile fs w h b)
           = map (\<lambda>f. survivingRings (coordinates f))
               (filter (\<lambda>f. survivingRings (coordinates f) \<noteq> []) fs)
       \<and> map (\<lambda>f. (cvalue f, isMajor f)) (clipContoursToTile fs w h b)
           = map (\<lambda>f. (cvalue f, isMajor f))
               (filter (\<lambda>f. survivingRings (coordinates f) \<noteq> []) fs)"
proof -
  have s: "fixedPointCoords g (survivingRings (coordinates f))" if "f \<in> set fs" for f
    using cs that by (simp add: fixedPointCoords_survivors)
  have 1: "clipCoordinates b (coordinates f) = exactTranslate b (survivingRings (coordinates f))"
    if "f \<in> set fs" for f
    unfolding clipCoordinates_survivors using coords_translate[OF b s[OF that]] .
  have 2: "unclip b (clipCoordinates b (coordinates f)) = survivingRings (coordinates f)"
    if "f \<in> set fs" for f
    unfolding clipCoordinates_survivors using coords_roundtrip[OF b s[OF that]] .
  have c1: "map coordinates (clipContoursToTile fs w h b)
           = map (\<lambda>f. exactTranslate b (survivingRings (coordinates f)))
               (filter (\<lambda>f. survivingRings (coordinates f) \<noteq> []) fs)"
    unfolding clipContoursToTile_filter by (simp add: comp_def 1 cong: map_cong)
  have c2: "map (\<lambda>f. unclip b (coordinates f)) (clipContoursToTile fs w h b)
           = map (\<lambda>f. survivingRings (coordinates f))
               (filter (\<lambda>f. survivingRings (coordinates f) \<noteq> []) fs)"
    unfolding clipContoursToTile_filter by (simp add: comp_def 2 cong: map_cong)
  have c3: "map (\<lambda>f. (cvalue f, isMajor f)) (clipContoursToTile fs w h b)
           = map (\<lambda>f. (cvalue f, isMajor f))
               (filter (\<lambda>f. survivingRings (coordinates f) \<noteq> []) fs)"
    unfolding clipContoursToTile_filter by (simp add: comp_def)
  show ?thesis using c1 c2 c3 by blast
qed


text \<open>The theorem at buffer 1, on half-integer coordinates, with a ring of one point.\<close>

theorem clip_roundtrip_witness:
  "fixedPoint 1 1
   \<and> fixedPointCoords 1 [[[(1 / 2, 3 / 2), (5 / 2, - 1 / 2)], [(7, 7)]]]
   \<and> map coordinates
         (clipContoursToTile
            [\<lparr>cvalue = 10, coordinates = [[[(1 / 2, 3 / 2), (5 / 2, - 1 / 2)], [(7, 7)]]],
              isMajor = False\<rparr>] 256 256 1)
       = [[[[(- 1 / 2, 1 / 2), (3 / 2, - 3 / 2)]]]]
   \<and> map (\<lambda>f. unclip 1 (coordinates f))
         (clipContoursToTile
            [\<lparr>cvalue = 10, coordinates = [[[(1 / 2, 3 / 2), (5 / 2, - 1 / 2)], [(7, 7)]]],
              isMajor = False\<rparr>] 256 256 1)
       = [[[[(1 / 2, 3 / 2), (5 / 2, - 1 / 2)]]]]"
proof -
  define c :: contour where
    "c = \<lparr>cvalue = 10, coordinates = [[[(1 / 2, 3 / 2), (5 / 2, - 1 / 2)], [(7, 7)]]],
          isMajor = False\<rparr>"
  have h1: "fixedPoint 1 1" by (simp add: fixedPoint_def)
  have n: "\<exists>n. (- 1 :: rat) = of_int n" by (rule exI[of _ "- 1"]) simp
  have h2: "\<forall>f \<in> set [c]. fixedPointCoords 1 (coordinates f)"
    by (simp add: c_def fixedPointCoords_def fixedPoint_def n)
  from clip_roundtrip[OF h1 h2, of 256 256]
  have "map coordinates (clipContoursToTile [c] 256 256 1)
          = [[[[(- 1 / 2, 1 / 2), (3 / 2, - 3 / 2)]]]]
      \<and> map (\<lambda>f. unclip 1 (coordinates f)) (clipContoursToTile [c] 256 256 1)
          = [[[[(1 / 2, 3 / 2), (5 / 2, - 1 / 2)]]]]"
    by (simp add: c_def survivingRings_def exactTranslate_def)
  moreover have "fixedPointCoords 1 [[[(1 / 2, 3 / 2), (5 / 2, - 1 / 2)], [(7, 7)]]]"
    using h2 by (simp add: c_def)
  ultimately show ?thesis using h1 unfolding c_def by blast
qed

lemma fsub_tiny: "fsub (1 / 2 ^ 60) 1 = - 1"
proof -
  have "fl (1 / 2 ^ 60 - 1) = of_int (- (2 ^ 53)) * 2 powi (- 1 - 52)"
    by (rule fl_eval) simp_all
  then show ?thesis by (simp add: fsub_def)
qed

text \<open>
  C5 as stated fails for a coordinate whose translation rounds: \<open>2^-60 - 1\<close> is \<open>-1\<close>
  in binary64, and adding 1 back gives 0.
\<close>

theorem clip_roundtrip_counterexample:
  "map (\<lambda>f. unclip 1 (coordinates f))
     (clipContoursToTile
        [\<lparr>cvalue = 10, coordinates = [[[(1 / 2 ^ 60, 0), (1, 1)]]], isMajor = False\<rparr>]
        256 256 1)
   \<noteq> [[[[(1 / 2 ^ 60, 0), (1, 1)]]]]"
proof -
  have m1: "fl (- 1) = - 1" using fl_of_int[of "- 1"] by simp
  have z: "fl 0 = 0" by (simp add: fl_def)
  have o: "fl 1 = 1" using fl_of_int[of 1] by simp
  have "map (\<lambda>f. unclip 1 (coordinates f))
     (clipContoursToTile
        [\<lparr>cvalue = 10, coordinates = [[[(1 / 2 ^ 60, 0), (1, 1)]]], isMajor = False\<rparr>]
        256 256 1)
     = [[[[(0, 0), (1, 1)]]]]"
    unfolding clipContoursToTile_filter clipCoordinates_survivors
    using fsub_tiny
    by (simp add: survivingRings_def clipRing_map unclip_def fadd_def fsub_def m1 z o)
  then show ?thesis by simp
qed

section \<open>The vector tile encoder\<close>

lemma ringGeometry_acc:
  "fold (\<lambda>(px, py) geometry.
           let tileX = js_round (fmul (fdiv px (of_nat w)) 4096);
               tileY = js_round (fmul (fdiv py (of_nat h)) 4096)
           in geometry @ [(tileX, tileY)]) ring acc
     = acc @ map (rescale w h) ring"
  by (induction ring arbitrary: acc) (auto simp: Let_def rescale_def fmul_def fdiv_def)

lemma ringGeometry_map: "ringGeometry w h ring = map (rescale w h) ring"
  unfolding ringGeometry_def ringGeometry_acc by simp

lemma buildFeatures_lineFeatures: "buildFeatures cs w h = lineFeatures cs w h"
proof -
  define feat where "feat = (\<lambda>(c::contour) ring.
     \<lparr>geometry = [map (rescale w h) ring], ftype = 2,
      tags = [(''ele'', js_round (cvalue c)), (''level'', if isMajor c then 1 else 0)]\<rparr>)"
  define ringStep where "ringStep = (\<lambda>(c::contour) ring features.
     let geometry = ringGeometry w h ring in
     if length geometry > 1
     then features @ [\<lparr>geometry = [geometry], ftype = 2,
                       tags = [(''ele'', js_round (cvalue c)),
                               (''level'', if isMajor c then 1 else 0)]\<rparr>]
     else features)"
  have ring1: "ringStep c ring acc = acc @ (if 1 < length ring then [feat c ring] else [])"
    for c ring acc
    by (simp add: ringStep_def feat_def ringGeometry_map Let_def)
  have rings: "fold (ringStep c) polygon acc
                 = acc @ map (feat c) (filter (\<lambda>ring. 1 < length ring) polygon)"
    for c polygon acc
    by (induction polygon arbitrary: acc) (simp_all add: ring1)
  have polys: "fold (\<lambda>polygon features. fold (ringStep c) polygon features) coords acc
                 = acc @ concat (map (\<lambda>polygon. map (feat c)
                                   (filter (\<lambda>ring. 1 < length ring) polygon)) coords)"
    for c coords acc
    by (induction coords arbitrary: acc) (simp_all add: rings)
  define contourStep where "contourStep = (\<lambda>(c::contour) features.
     if length (coordinates c) = 0 then features
     else fold (\<lambda>polygon features. fold (ringStep c) polygon features) (coordinates c) features)"
  have c1: "contourStep c acc
              = acc @ concat (map (\<lambda>polygon. map (feat c)
                                (filter (\<lambda>ring. 1 < length ring) polygon)) (coordinates c))"
    for c acc
    by (simp add: contourStep_def polys)
  have all: "fold contourStep cs acc
               = acc @ concat (map (\<lambda>c. concat (map (\<lambda>polygon. map (feat c)
                                (filter (\<lambda>ring. 1 < length ring) polygon)) (coordinates c))) cs)"
    for acc
    by (induction cs arbitrary: acc) (simp_all add: c1)
  have "buildFeatures cs w h = fold contourStep cs []"
    unfolding buildFeatures_def contourStep_def ringStep_def Let_def by (rule refl)
  then show ?thesis
    by (simp add: all lineFeatures_def feat_def)
qed


lemma js_round_int: "js_round (of_int n) = n"
  unfolding js_round_def by linarith

lemma js_round_half: "js_round (of_int n + 1 / 2) = n + 1"
  unfolding js_round_def by linarith

text \<open>
  C6, as the code has it. The encoder hands the wire encoder one layer, named
  \<open>contours\<close>, at version 2. Its features are, in order, one line-string feature for
  every ring of two or more points of every level, with each point rescaled to
  \<open>round(x / tileWidth * 4096)\<close>, \<open>round(y / tileHeight * 4096)\<close> and the integer
  attributes \<open>ele = round(value)\<close> and \<open>level\<close>, 1 for a major level and 0 otherwise.
  A ring of fewer than two points gives no feature.
\<close>

theorem encodeMVT_layer:
  assumes "0 < w" "0 < h"
  shows "encodeMVT vtpbf cs w h z x y
           = vtpbf [(''contours'',
                     \<lparr>features = lineFeatures cs w h,
                      numPoints = fold (\<lambda>f sum. sum + length (hd (geometry f)))
                                    (lineFeatures cs w h) 0,
                      numSimplified = 0,
                      numFeatures = length (lineFeatures cs w h),
                      tile_x = x, tile_y = y, tile_z = z, transformed = False,
                      minX = 0, minY = 0, maxX = 4096, maxY = 4096\<rparr>)] 2"
  by (simp add: encodeMVT_def Let_def buildFeatures_lineFeatures)

text \<open>The theorem on a tile of 256 by 256 pixels with one major level of value 49.5.\<close>

theorem encodeMVT_layer_witness:
  "(0::nat) < 256 \<and> (0::nat) < 256
   \<and> encodeMVT layerHeaderEncoder
         [\<lparr>cvalue = 99 / 2, coordinates = [[[(128, 64), (256, 256)]]], isMajor = True\<rparr>]
         256 256 1 2 3
       = layerHeaderEncoder
           [(''contours'',
             \<lparr>features = [\<lparr>geometry = [[(2048, 1024), (4096, 4096)]], ftype = 2,
                             tags = [(''ele'', 50), (''level'', 1)]\<rparr>],
              numPoints = 2, numSimplified = 0, numFeatures = 1,
              tile_x = 2, tile_y = 3, tile_z = 1, transformed = False,
              minX = 0, minY = 0, maxX = 4096, maxY = 4096\<rparr>)] 2"
proof -
  have f: "fl (1 / 2) = 1 / 2" "fl (1 / 4) = 1 / 4" "fl 1 = 1"
    "fl 2048 = 2048" "fl 1024 = 1024" "fl 4096 = 4096"
    using fl_of_int_div[of 1 1] fl_of_int_div[of 1 2] fl_of_int[of 1] fl_of_int[of 2048]
      fl_of_int[of 1024] fl_of_int[of 4096]
    by simp_all
  have r: "js_round 2048 = 2048" "js_round 1024 = 1024" "js_round 4096 = 4096"
    "js_round (99 / 2) = 50"
    using js_round_int[of 2048] js_round_int[of 1024] js_round_int[of 4096] js_round_half[of 49]
    by simp_all
  have l: "lineFeatures
          [\<lparr>cvalue = 99 / 2, coordinates = [[[(128, 64), (256, 256)]]], isMajor = True\<rparr>]
          256 256
        = [\<lparr>geometry = [[(2048, 1024), (4096, 4096)]], ftype = 2,
            tags = [(''ele'', 50), (''level'', 1)]\<rparr>]"
    by (simp add: lineFeatures_def rescale_def f r)
  have p: "(0::nat) < 256" by simp
  show ?thesis
    unfolding encodeMVT_layer[OF p p] l by (simp add: numeral_2_eq_2)
qed

text \<open>
  C6 as stated fails for a ring of one point: the level has a ring, and no feature
  is emitted for it.
\<close>

theorem buildFeatures_short_ring_counterexample:
  "buildFeatures [\<lparr>cvalue = 10, coordinates = [[[(1, 1)]]], isMajor = False\<rparr>] 256 256 = []"
  by (simp add: buildFeatures_lineFeatures lineFeatures_def)

section \<open>The tile request\<close>

lemma fetch_onlyCenter:
  "fetchTileWithBuffer (onlyCenter t) z 0 0
     = ([None, None, None, None, Some t, None, None, None, None], offsets)"
  by (simp add: fetchTileWithBuffer_def offsets_def onlyCenter_def)

lemma offsets_eq:
  "offsets = [(- 1, - 1), (0, - 1), (1, - 1), (- 1, 0), (0, 0), (1, 0), (- 1, 1), (0, 1), (1, 1)]"
  by (simp add: offsets_def)

lemma fillNeutral_36: "fillNeutral 36 =
  [128,128,128,255, 128,128,128,255, 128,128,128,255,
   128,128,128,255, 128,128,128,255, 128,128,128,255,
   128,128,128,255, 128,128,128,255, 128,128,128,255]"
  by code_simp


lemma stitch_pixel:
  "stitchTiles [None, None, None, None, Some pixelTile, None, None, None, None] offsets 1
     = Inr (Some \<lparr>cdata = [128,128,128,255, 128,128,128,255, 128,128,128,255,
                             128,128,128,255, 128,0,0,255, 128,128,128,255,
                             128,128,128,255, 128,128,128,255, 128,128,128,255],
                    cwidth = 3, cheight = 3, tileWidth = 1, tileHeight = 1, buffer = 1\<rparr>)"
  by code_simp

lemma stitch_tall:
  "stitchTiles [None, None, None, None, Some tallTile, None, None, None, None] offsets 1
     = Inr (Some \<lparr>cdata = [128,128,128,255, 128,128,128,255, 128,128,128,255,
                             128,128,128,255, 128,0,0,255, 128,128,128,255,
                             0,0,0,0, 0,0,0,0, 0,0,0,0,
                             0,0,0,0, 0,0,0,0, 0,0,0,0],
                    cwidth = 3, cheight = 4, tileWidth = 1, tileHeight = 2, buffer = 1\<rparr>)"
  by code_simp


lemma encodeMVT_no_features:
  "buildFeatures cs w h = [] \<Longrightarrow>
     encodeMVT vtpbf cs w h z x y = vtpbf [(''contours'', noFeaturesTile z x y)] 2"
  by (simp add: encodeMVT_def noFeaturesTile_def Let_def)

lemma zero_features_response:
  assumes ts: "tilesets tileset = Some pmtiles"
    and st: "stitchTiles (fst (fetchTileWithBuffer pmtiles z x y))
               (snd (fetchTileWithBuffer pmtiles z x y)) 1 = Inr (Some st)"
    and gc: "generateContours trace (cdata st) (cwidth st) (cheight st) enc i M = Returns cs"
    and nf: "buildFeatures
               (clipContoursToTile cs (tileWidth st) (tileHeight st) (of_nat (buffer st)))
               (tileWidth st) (tileHeight st) = []"
  shows "encodeMVT vtpbf
           (clipContoursToTile cs (tileWidth st) (tileHeight st) (of_nat (buffer st)))
           (tileWidth st) (tileHeight st) z x y
           = vtpbf [(''contours'', noFeaturesTile z x y)] 2
       \<and> tileRequest tilesets enc i M trace vtpbf tileset z x y
           = Some (if length (vtpbf [(''contours'', noFeaturesTile z x y)] 2) = 0
                   then Status204
                   else Status200 (vtpbf [(''contours'', noFeaturesTile z x y)] 2))"
proof -
  have e: "encodeMVT vtpbf
           (clipContoursToTile cs (tileWidth st) (tileHeight st) (of_nat (buffer st)))
           (tileWidth st) (tileHeight st) z x y
           = vtpbf [(''contours'', noFeaturesTile z x y)] 2"
    using nf by (rule encodeMVT_no_features)
  have "tileRequest tilesets enc i M trace vtpbf tileset z x y
           = Some (if length (vtpbf [(''contours'', noFeaturesTile z x y)] 2) = 0
                   then Status204
                   else Status200 (vtpbf [(''contours'', noFeaturesTile z x y)] 2))"
    unfolding tileRequest_def using ts st gc
    by (simp add: case_prod_beta Let_def e)
  then show ?thesis using e by blast
qed


lemma idx9: "[0..<9] = [0, 1, 2, 3, 4, 5, 6, 7, 8]"
  by (simp add: upt_conv_Cons)

lemma buildFeatures_Nil: "buildFeatures [] w h = []"
  by (simp add: buildFeatures_def)

lemma header_bytes:
  "layerHeaderEncoder [(''contours'', noFeaturesTile 0 0 0)] 2
     = [0x1A, 0x0F, 0x78, 0x02, 0x0A, 0x08, 0x63, 0x6F, 0x6E, 0x74, 0x6F, 0x75, 0x72, 0x73,
        0x28, 0x80, 0x20]"
  by code_simp

lemma pixel_stitched:
  "stitchTiles (fst (fetchTileWithBuffer (onlyCenter pixelTile) z 0 0))
     (snd (fetchTileWithBuffer (onlyCenter pixelTile) z 0 0)) 1 = Inr (Some pixelCanvas)"
  by (simp only: fetch_onlyCenter fst_conv snd_conv stitch_pixel pixelCanvas_def)

lemma stitch_flat:
  "stitchTiles [None, None, None, None, Some flatTile, None, None, None, None] offsets 1
     = Inr (Some flatCanvas)"
  by code_simp

lemma flat_stitched:
  "stitchTiles (fst (fetchTileWithBuffer (onlyCenter flatTile) z 0 0))
     (snd (fetchTileWithBuffer (onlyCenter flatTile) z 0 0)) 1 = Inr (Some flatCanvas)"
  by (simp only: fetch_onlyCenter fst_conv snd_conv stitch_flat)

lemma flat_decode:
  "decodeLoop (cdata flatCanvas) ''terrarium'' [0..<9] ([], None)
     = Inr ([Some (257 / 2), Some (257 / 2), Some (257 / 2), Some (257 / 2), Some 125,
             Some (257 / 2), Some (257 / 2), Some (257 / 2), Some (257 / 2)],
            Some (125, 257 / 2))"
  unfolding idx9 flatCanvas_def
  by (simp add: pixelElevation_def ta_get_def terrarium_exact byte_def)

lemma flat_thresholds: "planThresholds 125 (257 / 2) 10 = Some []"
proof -
  have h: "(0::int) < 10" "(125::rat) = of_int 125 / 2 ^ 0" "\<bar>125::int\<bar> < 2 ^ 53"
    "\<bar>125::rat\<bar> + of_int 10 \<le> 2 ^ 52" "(257 / 2 :: rat) + of_int 10 \<le> 2 ^ 52"
    by simp_all
  have c: "\<lceil>(25::rat) / 2\<rceil> = 13" and f: "\<lfloor>(257::rat) / 20\<rfloor> = 12" by linarith+
  from planThresholds_closed_form[OF h]
  show ?thesis by (simp add: c f)
qed

lemma flat_contours:
  "generateContours trace (cdata flatCanvas) (cwidth flatCanvas) (cheight flatCanvas)
     ''terrarium'' 10 50 = Returns []"
proof -
  have n: "cwidth flatCanvas * cheight flatCanvas = 9" by (simp add: flatCanvas_def)
  show ?thesis
    unfolding generateContours_def n flat_decode
    by (simp add: thresholdsOf_def flat_thresholds contours_def)
qed

lemma clip_Nil: "clipContoursToTile [] w h b = []"
  by (simp add: clipContoursToTile_def)

lemma flat_request:
  "tileRequest [''dem'' \<mapsto> onlyCenter flatTile] ''terrarium'' 10 50 trace vtpbf ''dem'' 0 0 0
     = Some (if length (vtpbf [(''contours'', noFeaturesTile 0 0 0)] 2) = 0 then Status204
             else Status200 (vtpbf [(''contours'', noFeaturesTile 0 0 0)] 2))"
proof -
  have ts: "[''dem'' \<mapsto> onlyCenter flatTile] ''dem'' = Some (onlyCenter flatTile)" by simp
  have nf: "buildFeatures
              (clipContoursToTile [] (tileWidth flatCanvas) (tileHeight flatCanvas)
                 (of_nat (buffer flatCanvas)))
              (tileWidth flatCanvas) (tileHeight flatCanvas) = []"
    by (simp add: clip_Nil buildFeatures_Nil)
  from zero_features_response[where tilesets = "[''dem'' \<mapsto> onlyCenter flatTile]"
      and tileset = "''dem''", OF ts flat_stitched[of 0] flat_contours nf]
  show ?thesis by blast
qed

text \<open>
  C7 on the code. A request whose center tile is one pixel of elevation 125 and whose
  eight neighbours are missing: the elevations of the canvas are 125 and 128.5, no
  multiple of 10 lies between them, so no level is planned and contour generation
  returns no feature, whatever the tracer. \<open>encodeMVT\<close> has no case for zero features:
  it hands the layer \<open>contours\<close> with no feature to the wire encoder. With an encoder that
  writes the layer header as vt-pbf's \<open>writeLayer\<close> does (version, name, extent), the
  result has 17 bytes, not zero, and the handler, whose branch for a zero-length result
  answers 204, answers 200 with these bytes.
\<close>

theorem flat_tile_answers_200:
  "generateContours trace (cdata flatCanvas) (cwidth flatCanvas) (cheight flatCanvas)
     ''terrarium'' 10 50 = Returns []
   \<and> buildFeatures (clipContoursToTile [] 1 1 1) 1 1 = []
   \<and> encodeMVT layerHeaderEncoder (clipContoursToTile [] 1 1 1) 1 1 0 0 0
       = [0x1A, 0x0F, 0x78, 0x02, 0x0A, 0x08, 0x63, 0x6F, 0x6E, 0x74, 0x6F, 0x75, 0x72, 0x73,
          0x28, 0x80, 0x20]
   \<and> tileRequest [''dem'' \<mapsto> onlyCenter flatTile] ''terrarium'' 10 50 trace
        layerHeaderEncoder ''dem'' 0 0 0
       = Some (Status200
           [0x1A, 0x0F, 0x78, 0x02, 0x0A, 0x08, 0x63, 0x6F, 0x6E, 0x74, 0x6F, 0x75, 0x72, 0x73,
            0x28, 0x80, 0x20])
   \<and> tileRequest [''dem'' \<mapsto> onlyCenter flatTile] ''terrarium'' 10 50 trace
        layerHeaderEncoder ''dem'' 0 0 0 \<noteq> Some Status204"
  using flat_request[of trace layerHeaderEncoder] flat_contours[of trace]
    encodeMVT_no_features[OF buildFeatures_Nil, of layerHeaderEncoder 1 1 0 0 0]
  by (simp add: header_bytes buildFeatures_Nil clip_Nil)


lemma pixelElevation_unknown:
  assumes "enc \<noteq> ''terrarium''" "enc \<noteq> ''mapbox''"
  shows "pixelElevation d enc i = Inl (UnknownEncoding enc)"
  using assms by (simp add: pixelElevation_def decodeElevation_def Let_def split: option.splits)

lemma generateContours_unknown:
  assumes "enc \<noteq> ''terrarium''" "enc \<noteq> ''mapbox''" "0 < w * h"
  shows "generateContours trace d w h enc i M = Throws (UnknownEncoding enc)"
proof -
  have "[0..<w * h] = 0 # [Suc 0..<w * h]" using assms(3) by (simp add: upt_conv_Cons)
  then show ?thesis
    by (simp add: generateContours_def pixelElevation_unknown[OF assms(1,2)])
qed

lemma request_unknown_encoding:
  assumes "enc \<noteq> ''terrarium''" "enc \<noteq> ''mapbox''"
    and ts: "tilesets tileset = Some pmtiles"
    and st: "stitchTiles (fst (fetchTileWithBuffer pmtiles z x y))
               (snd (fetchTileWithBuffer pmtiles z x y)) 1 = Inr (Some st)"
    and area: "0 < cwidth st * cheight st"
  shows "tileRequest tilesets enc i M trace vtpbf tileset z x y = Some Status500"
  unfolding tileRequest_def using ts st generateContours_unknown[OF assms(1,2) area]
  by (simp add: case_prod_beta Let_def)

lemma startServer_unchecked:
  assumes "enc \<noteq> []" "dir \<noteq> []"
  shows "startServer (Some dir) (Some True) (f # fs) (env(''ENCODING'' \<mapsto> enc)) = Listening enc"
  using assms by (simp add: startServer_def readENCODING_def)

text \<open>
  C8, as the code has it. The start of the server does not look at the encoding: with
  a directory that holds a tileset it listens, whatever \<open>ENCODING\<close> is. For a tag other
  than \<open>terrarium\<close> and \<open>mapbox\<close> the decoder throws at every pixel, so every tile request
  that reaches contour generation with a canvas of at least one pixel is answered 500.
\<close>

theorem unknown_encoding_per_tile:
  assumes "enc \<noteq> ''terrarium''" "enc \<noteq> ''mapbox''" "enc \<noteq> []" "dir \<noteq> []"
    and "tilesets tileset = Some pmtiles"
    and "stitchTiles (fst (fetchTileWithBuffer pmtiles z x y))
           (snd (fetchTileWithBuffer pmtiles z x y)) 1 = Inr (Some st)"
    and "0 < cwidth st * cheight st"
  shows "startServer (Some dir) (Some True) (f # fs) (env(''ENCODING'' \<mapsto> enc)) = Listening enc
       \<and> decodeElevation r g b enc = Inl (UnknownEncoding enc)
       \<and> tileRequest tilesets enc i M trace vtpbf tileset z x y = Some Status500"
  using assms startServer_unchecked[of enc dir f fs env]
    request_unknown_encoding[of enc tilesets tileset pmtiles z x y st i M trace vtpbf]
  by (simp add: decodeElevation_def)

text \<open>The theorem with \<open>ENCODING=jpeg\<close> and a request whose center tile is one pixel.\<close>

theorem unknown_encoding_per_tile_witness:
  "''jpeg'' \<noteq> ''terrarium'' \<and> ''jpeg'' \<noteq> ''mapbox'' \<and> ''jpeg'' \<noteq> [] \<and> ''data'' \<noteq> []
   \<and> [''dem'' \<mapsto> onlyCenter pixelTile] ''dem'' = Some (onlyCenter pixelTile)
   \<and> stitchTiles (fst (fetchTileWithBuffer (onlyCenter pixelTile) 0 0 0))
        (snd (fetchTileWithBuffer (onlyCenter pixelTile) 0 0 0)) 1 = Inr (Some pixelCanvas)
   \<and> 0 < cwidth pixelCanvas * cheight pixelCanvas
   \<and> startServer (Some ''data'') (Some True) [''dem.pmtiles''] (Map.empty(''ENCODING'' \<mapsto> ''jpeg''))
       = Listening ''jpeg''
   \<and> decodeElevation 128 0 0 ''jpeg'' = Inl (UnknownEncoding ''jpeg'')
   \<and> tileRequest [''dem'' \<mapsto> onlyCenter pixelTile] ''jpeg'' 10 50 noRings layerHeaderEncoder
        ''dem'' 0 0 0 = Some Status500"
proof -
  have h: "''jpeg'' \<noteq> ''terrarium''" "''jpeg'' \<noteq> ''mapbox''" "''jpeg'' \<noteq> []" "''data'' \<noteq> []"
    by simp_all
  have ts: "[''dem'' \<mapsto> onlyCenter pixelTile] ''dem'' = Some (onlyCenter pixelTile)" by simp
  have area: "0 < cwidth pixelCanvas * cheight pixelCanvas" by (simp add: pixelCanvas_def)
  from unknown_encoding_per_tile[where tilesets = "[''dem'' \<mapsto> onlyCenter pixelTile]"
      and tileset = "''dem''" and env = Map.empty and f = "''dem.pmtiles''" and fs = "[]"
      and r = 128 and g = 0 and b = 0 and i = 10 and M = 50 and trace = noRings
      and vtpbf = layerHeaderEncoder,
      OF h ts pixel_stitched[of 0] area]
  show ?thesis using h ts pixel_stitched[of 0] area by blast
qed

text \<open>
  C8 as stated fails: with \<open>ENCODING=jpeg\<close> the server starts and listens, and the
  unknown encoding shows as the answer 500 to a tile request.
\<close>

theorem unknown_encoding_counterexample:
  "startServer (Some ''data'') (Some True) [''dem.pmtiles''] (Map.empty(''ENCODING'' \<mapsto> ''jpeg''))
     = Listening ''jpeg''
   \<and> tileRequest [''dem'' \<mapsto> onlyCenter pixelTile] ''jpeg'' 10 50 noRings layerHeaderEncoder
        ''dem'' 0 0 0 = Some Status500"
proof -
  have ts: "[''dem'' \<mapsto> onlyCenter pixelTile] ''dem'' = Some (onlyCenter pixelTile)" by simp
  have area: "0 < cwidth pixelCanvas * cheight pixelCanvas" by (simp add: pixelCanvas_def)
  have "tileRequest [''dem'' \<mapsto> onlyCenter pixelTile] ''jpeg'' 10 50 noRings layerHeaderEncoder
        ''dem'' 0 0 0 = Some Status500"
    by (rule request_unknown_encoding[where tilesets = "[''dem'' \<mapsto> onlyCenter pixelTile]"
          and tileset = "''dem''", OF _ _ ts pixel_stitched[of 0] area]) simp_all
  then show ?thesis by (simp add: startServer_def readENCODING_def)
qed


text \<open>
  C4 on the code. When every tile is missing the assembly returns no canvas. With
  only the center tile present it returns a canvas; on a center tile of width 1 and
  height 2 the canvas has 3 columns and 4 rows, and its two lower rows are
  \<open>(0,0,0,0)\<close> in every cell, not the sentinel \<open>(128,128,128,255)\<close>: the stitched array is
  allocated with \<open>stitchedWidth * stitchedWidth\<close> pixels, three rows here, so the rows from
  the fourth on are written and read out of range. The second pixel of the center
  tile is lost the same way.
\<close>

theorem stitch_tall_center_only:
  "stitchTiles [None, None, None, None, None, None, None, None, None] offsets 1 = Inr None
   \<and> stitchTiles [None, None, None, None, Some tallTile, None, None, None, None] offsets 1
     = Inr (Some \<lparr>cdata = [128,128,128,255, 128,128,128,255, 128,128,128,255,
                             128,128,128,255, 128,0,0,255, 128,128,128,255,
                             0,0,0,0, 0,0,0,0, 0,0,0,0,
                             0,0,0,0, 0,0,0,0, 0,0,0,0],
                    cwidth = 3, cheight = 4, tileWidth = 1, tileHeight = 2, buffer = 1\<rparr>)"
  using stitch_tall by (simp add: stitchTiles_def)

section \<open>The sentinel in the assembled canvas\<close>

lemma ta_set_length [simp]: "length (ta_set a i v) = length a"
  by (simp add: ta_set_def)

lemma ta_set_other: "int j \<noteq> i \<Longrightarrow> ta_set a i v ! j = a ! j"
  by (auto simp: ta_set_def)

lemma ta_set_same:
  "0 \<le> i \<Longrightarrow> i < int (length a) \<Longrightarrow> ta_set a i v ! nat i = (case v of None \<Rightarrow> 0 | Some b \<Rightarrow> b)"
  by (simp add: ta_set_def)

lemma copyPixel_length [simp]: "length (copyPixel src s dst d) = length dst"
  by (simp add: copyPixel_def)

lemma copyPixel_other:
  assumes "int j \<noteq> d" "int j \<noteq> d + 1" "int j \<noteq> d + 2" "int j \<noteq> d + 3"
  shows "copyPixel src s dst d ! j = dst ! j"
  using assms by (simp add: copyPixel_def ta_set_other)

lemma copyPixel_keeps_sentinel:
  assumes "sentinelAt a k" "q \<noteq> int k"
  shows "sentinelAt (copyPixel src s a (q * 4)) k"
proof -
  have ne: "int (4 * k + c) \<noteq> q * 4 + c'" if "c < 4" "0 \<le> c'" "c' < 4" for c c'
    using assms(2) that by presburger
  have o: "copyPixel src s a (q * 4) ! (4 * k + c) = a ! (4 * k + c)" if "c < 4" for c
    by (rule copyPixel_other)
       (use ne[OF that, of 0] ne[OF that, of 1] ne[OF that, of 2] ne[OF that, of 3] in simp_all)
  show ?thesis
    using assms(1) o[of 0] o[of 1] o[of 2] o[of 3] by (simp add: sentinelAt_def)
qed

lemma fold_invariant:
  assumes "\<And>x a. x \<in> set xs \<Longrightarrow> P a \<Longrightarrow> P (f x a)" "P a"
  shows "P (fold f xs a)"
  using assms by (induction xs arbitrary: a) simp_all

lemma fold_establish:
  assumes zin: "z \<in> set xs"
    and est: "\<And>a. L a \<Longrightarrow> Q (f z a)"
    and pres: "\<And>x a. x \<in> set xs \<Longrightarrow> x \<noteq> z \<Longrightarrow> Q a \<Longrightarrow> Q (f x a)"
    and len: "\<And>x a. x \<in> set xs \<Longrightarrow> L a \<Longrightarrow> L (f x a)"
    and a: "L a"
  shows "Q (fold f xs a)"
  using zin est pres len a
proof (induction xs arbitrary: a)
  case Nil
  then show ?case by simp
next
  case (Cons x xs)
  show ?case
  proof (cases "z \<in> set xs")
    case True
    have "L (f x a)" using Cons.prems(4)[of x a] Cons.prems(5) by simp
    then have "Q (fold f xs (f x a))"
      using Cons.IH[OF True Cons.prems(2)] Cons.prems(3,4) by simp
    then show ?thesis by simp
  next
    case False
    then have x: "x = z" using Cons.prems(1) by simp
    have q: "Q (f z a)" using Cons.prems(2)[OF Cons.prems(5)] .
    have "Q (fold f xs (f z a))"
    proof (rule fold_invariant[where P = Q])
      show "Q (f z a)" by (rule q)
    next
      fix y b assume "y \<in> set xs" "Q b"
      then show "Q (f y b)" using Cons.prems(3)[of y b] False by auto
    qed
    then show ?thesis using x by simp
  qed
qed


lemma ta_set_nth:
  "ta_set a i v ! j
     = (if int j = i \<and> j < length a then (case v of None \<Rightarrow> 0 | Some b \<Rightarrow> b) else a ! j)"
  by (auto simp: ta_set_def)

lemma copyPixel_result:
  assumes "4 * k + 3 < length dst"
  shows "copyPixel src s dst (int k * 4) ! (4 * k) = (case ta_get src s of None \<Rightarrow> 0 | Some b \<Rightarrow> b)"
    and "copyPixel src s dst (int k * 4) ! (4 * k + 1)
           = (case ta_get src (s + 1) of None \<Rightarrow> 0 | Some b \<Rightarrow> b)"
    and "copyPixel src s dst (int k * 4) ! (4 * k + 2)
           = (case ta_get src (s + 2) of None \<Rightarrow> 0 | Some b \<Rightarrow> b)"
    and "copyPixel src s dst (int k * 4) ! (4 * k + 3)
           = (case ta_get src (s + 3) of None \<Rightarrow> 0 | Some b \<Rightarrow> b)"
  using assms by (simp_all add: copyPixel_def ta_set_nth)

lemma copyPixel_sentinel:
  assumes "4 * k + 3 < length dst" "sentinelAt src j"
  shows "sentinelAt (copyPixel src (int j * 4) dst (int k * 4)) k"
proof -
  have g: "ta_get src (int j * 4) = Some 128" "ta_get src (int j * 4 + 1) = Some 128"
    "ta_get src (int j * 4 + 2) = Some 128" "ta_get src (int j * 4 + 3) = Some 255"
    using assms(2)
    by (simp_all add: sentinelAt_def ta_get_def nat_add_distrib nat_mult_distrib mult.commute)
  show ?thesis
    using assms(1) copyPixel_result[OF assms(1), of src "int j * 4"] g
    by (simp add: sentinelAt_def)
qed

lemma fillNeutral_length [simp]: "length (fillNeutral n) = n"
  unfolding fillNeutral_def
  by (rule fold_invariant[where P = "\<lambda>a. length a = n"]) (simp_all add: Let_def)

lemma fillNeutral_sentinel:
  assumes "k < m"
  shows "sentinelAt (fillNeutral (4 * m)) k"
proof -
  define step where "step = (\<lambda>k a. let i = int k * 4 in
             ta_set (ta_set (ta_set (ta_set a i (Some 128)) (i + 1) (Some 128))
                            (i + 2) (Some 128))
                    (i + 3) (Some 255))"
  have step: "step j a = copyPixel [128, 128, 128, 255] 0 a (int j * 4)" for j a
    by (simp add: step_def copyPixel_def ta_get_def Let_def)
  have src: "sentinelAt [128, 128, 128, 255] 0" by (simp add: sentinelAt_def)
  have "sentinelAt (fold step [0..<(4 * m + 3) div 4] (replicate (4 * m) 0)) k"
  proof (rule fold_establish[where L = "\<lambda>a. length a = 4 * m" and z = k])
    show "k \<in> set [0..<(4 * m + 3) div 4]" using assms by simp
  next
    fix a :: bytes assume "length a = 4 * m"
    then have "4 * k + 3 < length a" using assms by simp
    then show "sentinelAt (step k a) k"
      unfolding step using copyPixel_sentinel[of k a "[128, 128, 128, 255]" 0] src by simp
  next
    fix x and a :: bytes assume "x \<noteq> k" "sentinelAt a k"
    then show "sentinelAt (step x a) k"
      unfolding step by (intro copyPixel_keeps_sentinel) simp_all
  next
    fix x and a :: bytes assume "length a = 4 * m"
    then show "length (step x a) = 4 * m" by (simp add: step)
  next
    show "length (replicate (4 * m) (0 :: 8 word)) = 4 * m" by simp
  qed
  then show ?thesis unfolding fillNeutral_def step_def .
qed


lemma grid_index_neq:
  fixes a b y y' W :: int
  assumes "0 \<le> a" "a < W" "0 \<le> b" "b < W" "a \<noteq> b \<or> y \<noteq> y'"
  shows "y * W + a \<noteq> y' * W + b"
proof (cases "y = y'")
  case True
  then show ?thesis using assms(5) by simp
next
  case False
  have W: "0 \<le> W" using assms(1,2) by simp
  show ?thesis
  proof (cases "y < y'")
    case True
    then have "(y + 1) * W \<le> y' * W" using W by (intro mult_right_mono) simp_all
    then show ?thesis using assms by (simp add: algebra_simps)
  next
    case F: False
    then have "y' < y" using False by simp
    then have "(y' + 1) * W \<le> y * W" using W by (intro mult_right_mono) simp_all
    then show ?thesis using assms by (simp add: algebra_simps)
  qed
qed

lemma pasteTile_keeps_sentinel:
  assumes "sentinelAt a K"
    and "\<And>px py. px < twidth t \<Longrightarrow> py < theight t \<Longrightarrow>
           ((snd pos + 1) * int th + int py) * int W + ((fst pos + 1) * int tw + int px) \<noteq> int K"
  shows "sentinelAt (pasteTile tw th W t pos a) K"
  unfolding pasteTile_def Let_def
proof (rule fold_invariant[where P = "\<lambda>a. sentinelAt a K"])
  show "sentinelAt a K" by (rule assms(1))
next
  fix py b assume py: "py \<in> set [0..<theight t]" and b: "sentinelAt b K"
  show "sentinelAt
          (fold (\<lambda>px a. copyPixel (tdata t) ((int py * int (twidth t) + int px) * 4) a
                   ((((snd pos + 1) * int th + int py) * int W
                     + ((fst pos + 1) * int tw + int px)) * 4))
             [0..<twidth t] b) K"
  proof (rule fold_invariant[where P = "\<lambda>a. sentinelAt a K"])
    show "sentinelAt b K" by (rule b)
  next
    fix px c assume px: "px \<in> set [0..<twidth t]" and c: "sentinelAt c K"
    show "sentinelAt (copyPixel (tdata t) ((int py * int (twidth t) + int px) * 4) c
             ((((snd pos + 1) * int th + int py) * int W
               + ((fst pos + 1) * int tw + int px)) * 4)) K"
      using c assms(2)[of px py] px py by (intro copyPixel_keeps_sentinel) simp_all
  qed
qed

lemma pasteTile_length [simp]: "length (pasteTile tw th W t pos a) = length a"
  unfolding pasteTile_def Let_def
  by (rule fold_invariant[where P = "\<lambda>b. length b = length a"])
     (auto intro!: fold_invariant[where P = "\<lambda>b. length b = length a"])

lemma extractWindow_sentinel:
  assumes x: "x < ew" and y: "y < eh" and len: "length e = 4 * (ew * eh)"
    and J: "int J = (srcMinY + int y) * int W + (srcMinX + int x)"
    and src: "sentinelAt s J"
  shows "sentinelAt (extractWindow s W srcMinX srcMinY ew eh e) (y * ew + x)"
proof -
  define k where "k = y * ew + x"
  define pixel where "pixel = (\<lambda>y x a.
     copyPixel s (((srcMinY + int y) * int W + (srcMinX + int x)) * 4) a
       ((int y * int ew + int x) * 4))"
  define row where "row = (\<lambda>y a. fold (pixel y) [0..<ew] a)"
  have "(y + 1) * ew \<le> eh * ew" using y by (intro mult_right_mono) simp_all
  then have kb: "k < ew * eh" using x by (simp add: k_def algebra_simps)
  have plen: "length (pixel v u a) = length a" for v u a by (simp add: pixel_def)
  have rlen: "length (row v a) = length a" for v a
    unfolding row_def
    by (rule fold_invariant[where P = "\<lambda>b. length b = length a"]) (simp_all add: plen)
  have other: "sentinelAt (pixel v u a) k" if "sentinelAt a k" "u < ew" "u \<noteq> x \<or> v \<noteq> y"
    for v u a
  proof -
    have "int v * int ew + int u \<noteq> int y * int ew + int x"
      using that(2,3) x by (intro grid_index_neq) auto
    then have "int v * int ew + int u \<noteq> int k" by (simp add: k_def)
    then show ?thesis unfolding pixel_def using that(1) by (intro copyPixel_keeps_sentinel)
  qed
  have here: "sentinelAt (pixel y x a) k" if "length a = 4 * (ew * eh)" for a
  proof -
    have b: "4 * k + 3 < length a" using kb that by simp
    have d: "(int y * int ew + int x) * 4 = int k * 4" by (simp add: k_def)
    have sidx: "((srcMinY + int y) * int W + (srcMinX + int x)) * 4 = int J * 4"
      using J by simp
    show ?thesis unfolding pixel_def d sidx using b src by (rule copyPixel_sentinel)
  qed
  have rowy: "sentinelAt (row y a) k" if "length a = 4 * (ew * eh)" for a
    unfolding row_def
  proof (rule fold_establish[where L = "\<lambda>a. length a = 4 * (ew * eh)" and z = x])
    show "x \<in> set [0..<ew]" using x by simp
    show "length a = 4 * (ew * eh)" by (rule that)
  next
    fix b :: bytes assume "length b = 4 * (ew * eh)"
    then show "sentinelAt (pixel y x b) k" by (rule here)
  next
    fix u and b :: bytes assume "u \<in> set [0..<ew]" "u \<noteq> x" "sentinelAt b k"
    then show "sentinelAt (pixel y u b) k" by (intro other) simp_all
  next
    fix u and b :: bytes assume "length b = 4 * (ew * eh)"
    then show "length (pixel y u b) = 4 * (ew * eh)" by (simp add: plen)
  qed
  have rowo: "sentinelAt (row v a) k" if "sentinelAt a k" "v \<noteq> y" for v a
    unfolding row_def
  proof (rule fold_invariant[where P = "\<lambda>a. sentinelAt a k"])
    show "sentinelAt a k" by (rule that(1))
  next
    fix u b assume "u \<in> set [0..<ew]" "sentinelAt b k"
    then show "sentinelAt (pixel v u b) k" using that(2) by (intro other) simp_all
  qed
  have "sentinelAt (fold row [0..<eh] e) k"
  proof (rule fold_establish[where L = "\<lambda>a. length a = 4 * (ew * eh)" and z = y])
    show "y \<in> set [0..<eh]" using y by simp
    show "length e = 4 * (ew * eh)" by (rule len)
  next
    fix b :: bytes assume "length b = 4 * (ew * eh)"
    then show "sentinelAt (row y b) k" by (rule rowy)
  next
    fix v and b :: bytes assume "v \<in> set [0..<eh]" "v \<noteq> y" "sentinelAt b k"
    then show "sentinelAt (row v b) k" by (intro rowo)
  next
    fix v and b :: bytes assume "length b = 4 * (ew * eh)"
    then show "length (row v b) = 4 * (ew * eh)" by (simp add: rlen)
  qed
  then show ?thesis
    unfolding extractWindow_def row_def pixel_def k_def Let_def .
qed


lemma slot_neq:
  fixes n a b d d' :: int
  assumes "d \<in> {- 1, 0, 1}" "d' \<in> {- 1, 0, 1}" "d \<noteq> d'"
    and "(d + 1) * n \<le> a" "a < (d + 2) * n" "(d' + 1) * n \<le> b" "b < (d' + 2) * n"
  shows "a \<noteq> b"
  using assms by auto

lemma offsets_distinct: "distinct offsets"
  by (simp add: offsets_def)

lemma offsets_range: "p \<in> set offsets \<Longrightarrow> fst p \<in> {- 1, 0, 1} \<and> snd p \<in> {- 1, 0, 1}"
  by (auto simp: offsets_def)

lemma stitched_keeps_sentinel:
  assumes sq: "\<And>t. Some t \<in> set tiles \<Longrightarrow> twidth t = n \<and> theight t = n"
    and j: "j < length tiles" "tiles ! j = None" and len: "length tiles = length offsets"
    and X: "(fst (offsets ! j) + 1) * int n \<le> X" "X < (fst (offsets ! j) + 2) * int n"
    and Y: "(snd (offsets ! j) + 1) * int n \<le> Y" "Y < (snd (offsets ! j) + 2) * int n"
    and K: "int K = Y * int (n * 3) + X"
    and a: "sentinelAt a K"
  shows "sentinelAt
           (fold (\<lambda>(tile, pos) a. case tile of None \<Rightarrow> a
                    | Some t \<Rightarrow> pasteTile n n (n * 3) t pos a)
              (zip tiles offsets) a) K"
proof (rule fold_invariant[where P = "\<lambda>a. sentinelAt a K"])
  show "sentinelAt a K" by (rule a)
next
  fix z b assume z: "z \<in> set (zip tiles offsets)" and b: "sentinelAt b K"
  obtain tile pos where zp: "z = (tile, pos)" by (cases z)
  show "sentinelAt ((case z of (tile, pos) \<Rightarrow> \<lambda>a. case tile of None \<Rightarrow> a
                    | Some t \<Rightarrow> pasteTile n n (n * 3) t pos a) b) K"
  proof (cases tile)
    case None
    then show ?thesis using b zp by simp
  next
    case (Some t)
    from z zp obtain i where i: "i < length tiles" "tiles ! i = tile" "offsets ! i = pos"
      using len by (auto simp: in_set_zip)
    have tin: "Some t \<in> set tiles" using i Some by (metis nth_mem)
    have dims: "twidth t = n" "theight t = n" using sq[OF tin] by simp_all
    have "i \<noteq> j" using i(2) j(2) Some by auto
    then have pne: "pos \<noteq> offsets ! j"
      using i(1,3) j(1) len offsets_distinct by (auto simp: nth_eq_iff_index_eq)
    have pr: "fst pos \<in> {- 1, 0, 1}" "snd pos \<in> {- 1, 0, 1}"
      using offsets_range[of pos] i(1,3) len by (metis nth_mem)+
    have jr: "fst (offsets ! j) \<in> {- 1, 0, 1}" "snd (offsets ! j) \<in> {- 1, 0, 1}"
      using offsets_range[of "offsets ! j"] j(1) len by (metis nth_mem)+
    have X0: "0 \<le> X" "X < int (n * 3)" using X jr(1) by auto
    have "sentinelAt (pasteTile n n (n * 3) t pos b) K"
    proof (rule pasteTile_keeps_sentinel[OF b])
      fix px py assume p: "px < twidth t" "py < theight t"
      define A where "A = (fst pos + 1) * int n + int px"
      define B where "B = (snd pos + 1) * int n + int py"
      have A: "(fst pos + 1) * int n \<le> A" "A < (fst pos + 2) * int n"
        using p(1) dims by (simp_all add: A_def algebra_simps)
      have B: "(snd pos + 1) * int n \<le> B" "B < (snd pos + 2) * int n"
        using p(2) dims by (simp_all add: B_def algebra_simps)
      have A0: "0 \<le> A" "A < int (n * 3)" using A pr(1) by auto
      have "A \<noteq> X \<or> B \<noteq> Y"
      proof (cases "fst pos = fst (offsets ! j)")
        case True
        then have "snd pos \<noteq> snd (offsets ! j)" using pne by (simp add: prod_eq_iff)
        then have "B \<noteq> Y" using slot_neq[OF pr(2) jr(2) _ B Y] by simp
        then show ?thesis by simp
      next
        case False
        then have "A \<noteq> X" using slot_neq[OF pr(1) jr(1) _ A X] by simp
        then show ?thesis by simp
      qed
      then have "B * int (n * 3) + A \<noteq> Y * int (n * 3) + X"
        using A0 X0 by (intro grid_index_neq) auto
      then show "((snd pos + 1) * int n + int py) * int (n * 3)
                   + ((fst pos + 1) * int n + int px) \<noteq> int K"
        unfolding K A_def B_def .
    qed
    then show ?thesis using zp Some by simp
  qed
qed


lemma offsets_length [simp]: "length offsets = 9"
  by (simp add: offsets_def)

lemma stitch_square:
  assumes len: "length tiles = 9"
    and sq: "\<And>t. Some t \<in> set tiles \<Longrightarrow> twidth t = n \<and> theight t = n"
    and pres: "Some t0 \<in> set tiles"
  shows "stitchTiles tiles offsets 1
           = Inr (Some \<lparr>cdata =
                          extractWindow
                            (fold (\<lambda>(tile, pos) a. case tile of None \<Rightarrow> a
                                     | Some t \<Rightarrow> pasteTile n n (n * 3) t pos a)
                               (zip tiles offsets) (fillNeutral (n * 3 * (n * 3) * 4)))
                            (n * 3) (int n - int 1) (int n - int 1) (n + 1 * 2) (n + 1 * 2)
                            (fillNeutral ((n + 1 * 2) * (n + 1 * 2) * 4)),
                        cwidth = n + 1 * 2, cheight = n + 1 * 2, tileWidth = n,
                        tileHeight = n, buffer = 1\<rparr>)"
proof -
  have "\<exists>x \<in> set tiles. x \<noteq> None" using pres by force
  then obtain x where f: "find (\<lambda>t. t \<noteq> None) tiles = Some x"
    by (cases "find (\<lambda>t. t \<noteq> None) tiles") (auto simp: find_None_iff)
  then have "x \<in> set tiles" "x \<noteq> None"
    by (auto simp: find_Some_iff intro: nth_mem)
  then obtain v where v: "x = Some v" "Some v \<in> set tiles" by (cases x) auto
  have dims: "twidth v = n" "theight v = n" using sq[OF v(2)] by simp_all
  have d: "drop (length offsets) tiles = []" using len by simp
  show ?thesis
    unfolding stitchTiles_def Let_def
    by (simp only: f v(1) option.case d list_ex_Nil_iff if_False dims)
qed


lemma canvas_cell_sentinel:
  assumes len: "length tiles = 9"
    and sq: "\<And>t. Some t \<in> set tiles \<Longrightarrow> twidth t = n \<and> theight t = n"
    and j: "j < 9" "tiles ! j = None"
    and pres: "Some t0 \<in> set tiles"
    and xb: "x < n + 2" and yb: "y < n + 2"
    and Xs: "(fst (offsets ! j) + 1) * int n \<le> int n - 1 + int x"
            "int n - 1 + int x < (fst (offsets ! j) + 2) * int n"
    and Ys: "(snd (offsets ! j) + 1) * int n \<le> int n - 1 + int y"
            "int n - 1 + int y < (snd (offsets ! j) + 2) * int n"
  shows "\<exists>st. stitchTiles tiles offsets 1 = Inr (Some st)
           \<and> cwidth st = n + 2 \<and> cheight st = n + 2
           \<and> sentinelAt (cdata st) (y * (n + 2) + x)"
proof -
  define dx where "dx = fst (offsets ! j)"
  define dy where "dy = snd (offsets ! j)"
  have "offsets ! j \<in> set offsets" using j(1) by simp
  then have r: "dx \<in> {- 1, 0, 1}" "dy \<in> {- 1, 0, 1}"
    using offsets_range[of "offsets ! j"] by (simp_all add: dx_def dy_def)
  define ew where "ew = n + 1 * 2"
  define X where "X = int n - int 1 + int x"
  define Y where "Y = int n - int 1 + int y"
  have xb': "x < ew" and yb': "y < ew" using xb yb by (simp_all add: ew_def)
  have Xs': "(dx + 1) * int n \<le> X" "X < (dx + 2) * int n"
    using Xs by (simp_all add: X_def dx_def)
  have Ys': "(dy + 1) * int n \<le> Y" "Y < (dy + 2) * int n"
    using Ys by (simp_all add: Y_def dy_def)
  have X0: "0 \<le> X" "X < int (n * 3)" using Xs' r(1) by auto
  have Y0: "0 \<le> Y" "Y < int (n * 3)" using Ys' r(2) by auto
  define J where "J = nat (Y * int (n * 3) + X)"
  have J: "int J = Y * int (n * 3) + X" using X0 Y0 by (simp add: J_def)
  have "(Y + 1) * int (n * 3) \<le> int (n * 3) * int (n * 3)"
    using Y0 by (simp add: mult.commute mult_left_mono)
  then have "int J < int (n * 3 * (n * 3))" using J X0 by (simp add: algebra_simps)
  then have Jb: "J < n * 3 * (n * 3)" by (simp only: of_nat_less_iff)
  have "sentinelAt (fillNeutral (4 * (n * 3 * (n * 3)))) J" using Jb by (rule fillNeutral_sentinel)
  then have s0: "sentinelAt (fillNeutral (n * 3 * (n * 3) * 4)) J" by (simp add: mult.commute)
  define S where "S = fold (\<lambda>(tile, pos) a. case tile of None \<Rightarrow> a
                              | Some t \<Rightarrow> pasteTile n n (n * 3) t pos a)
                        (zip tiles offsets) (fillNeutral (n * 3 * (n * 3) * 4))"
  have s1: "sentinelAt S J"
    unfolding S_def
    by (rule stitched_keeps_sentinel[where j = j and X = X and Y = Y])
       (use sq j len Xs' Ys' J s0 in \<open>simp_all add: dx_def dy_def\<close>)
  define e where "e = fillNeutral (ew * ew * 4)"
  have le: "length e = 4 * (ew * ew)" by (simp add: e_def)
  have Jw: "int J = (int n - int 1 + int y) * int (n * 3) + (int n - int 1 + int x)"
    using J by (simp add: X_def Y_def)
  have s2: "sentinelAt (extractWindow S (n * 3) (int n - int 1) (int n - int 1) ew ew e) (y * ew + x)"
    using xb' yb' le Jw s1 by (rule extractWindow_sentinel)
  have st: "stitchTiles tiles offsets 1
              = Inr (Some \<lparr>cdata = extractWindow S (n * 3) (int n - int 1) (int n - int 1) ew ew e,
                           cwidth = ew, cheight = ew, tileWidth = n, tileHeight = n,
                           buffer = 1\<rparr>)"
    unfolding S_def e_def ew_def using len sq pres by (rule stitch_square)
  show ?thesis
    unfolding st using s2 by (simp add: ew_def)
qed

lemma canvas_has_sentinel:
  assumes len: "length tiles = 9"
    and sq: "\<And>t. Some t \<in> set tiles \<Longrightarrow> twidth t = n \<and> theight t = n"
    and n: "0 < n"
    and j: "j < 9" "tiles ! j = None"
    and pres: "Some t0 \<in> set tiles"
  shows "\<exists>st k. stitchTiles tiles offsets 1 = Inr (Some st)
           \<and> k < cwidth st * cheight st \<and> sentinelAt (cdata st) k"
proof -
  define cell :: "int \<Rightarrow> nat" where
    "cell = (\<lambda>d. if d = - 1 then 0 else if d = 0 then 1 else n + 1)"
  define x where "x = cell (fst (offsets ! j))"
  define y where "y = cell (snd (offsets ! j))"
  have "offsets ! j \<in> set offsets" using j(1) by simp
  then have r: "fst (offsets ! j) \<in> {- 1, 0, 1}" "snd (offsets ! j) \<in> {- 1, 0, 1}"
    using offsets_range[of "offsets ! j"] by simp_all
  have xb: "x < n + 2" and yb: "y < n + 2" by (simp_all add: x_def y_def cell_def)
  have Xs: "(fst (offsets ! j) + 1) * int n \<le> int n - 1 + int x"
           "int n - 1 + int x < (fst (offsets ! j) + 2) * int n"
    using r(1) n by (auto simp: x_def cell_def)
  have Ys: "(snd (offsets ! j) + 1) * int n \<le> int n - 1 + int y"
           "int n - 1 + int y < (snd (offsets ! j) + 2) * int n"
    using r(2) n by (auto simp: y_def cell_def)
  from canvas_cell_sentinel[OF len sq j pres xb yb Xs Ys]
  obtain st where st: "stitchTiles tiles offsets 1 = Inr (Some st)"
    "cwidth st = n + 2" "cheight st = n + 2" "sentinelAt (cdata st) (y * (n + 2) + x)"
    by blast
  have "(y + 1) * (n + 2) \<le> (n + 2) * (n + 2)" using yb by (intro mult_right_mono) simp_all
  then have "y * (n + 2) + x < (n + 2) * (n + 2)" using xb by (simp add: algebra_simps)
  then show ?thesis using st by auto
qed

text \<open>
  Around a lone center tile that is square, every cell of the canvas outside the
  center tile's region is the sentinel.
\<close>

lemma center_only_square:
  assumes dims: "twidth t = n" "theight t = n" and n: "0 < n"
    and xb: "x < n + 2" and yb: "y < n + 2"
    and out: "x = 0 \<or> x = n + 1 \<or> y = 0 \<or> y = n + 1"
  shows "\<exists>st. stitchTiles [None, None, None, None, Some t, None, None, None, None] offsets 1
                 = Inr (Some st)
           \<and> cwidth st = n + 2 \<and> cheight st = n + 2
           \<and> sentinelAt (cdata st) (y * (n + 2) + x)"
proof -
  define tiles where "tiles = [None, None, None, None, Some t, None, None, None, None]"
  define slot :: "nat \<Rightarrow> nat" where
    "slot = (\<lambda>c. if c = 0 then 0 else if c \<le> n then 1 else 2)"
  define j where "j = slot y * 3 + slot x"
  have s: "slot x < 3" "slot y < 3" by (simp_all add: slot_def)
  have ne: "slot x \<noteq> 1 \<or> slot y \<noteq> 1" using out n by (auto simp: slot_def)
  have len: "length tiles = 9" by (simp add: tiles_def)
  have sq: "\<And>u. Some u \<in> set tiles \<Longrightarrow> twidth u = n \<and> theight u = n"
    using dims by (auto simp: tiles_def)
  have jb: "j < 9" using s by (simp add: j_def)
  have cases: "(slot x = 0 \<or> slot x = 1 \<or> slot x = 2) \<and> (slot y = 0 \<or> slot y = 1 \<or> slot y = 2)"
    using s by auto
  have jn: "tiles ! j = None"
    using cases ne by (auto simp: j_def tiles_def)
  have off: "offsets ! j = (int (slot x) - 1, int (slot y) - 1)"
    using cases by (auto simp: j_def offsets_def)
  have pres: "Some t \<in> set tiles" by (simp add: tiles_def)
  have Xs: "(fst (offsets ! j) + 1) * int n \<le> int n - 1 + int x"
           "int n - 1 + int x < (fst (offsets ! j) + 2) * int n"
    using xb n unfolding off by (auto simp: slot_def algebra_simps)
  have Ys: "(snd (offsets ! j) + 1) * int n \<le> int n - 1 + int y"
           "int n - 1 + int y < (snd (offsets ! j) + 2) * int n"
    using yb n unfolding off by (auto simp: slot_def algebra_simps)
  show ?thesis
    using canvas_cell_sentinel[OF len sq jb jn pres xb yb Xs Ys] unfolding tiles_def .
qed


lemma pixelElevation_known:
  assumes "enc = ''terrarium'' \<or> enc = ''mapbox''"
  shows "pixelElevation d enc i = Inr (elevationOf d enc i)"
  using assms
  by (auto simp: elevationOf_def pixelElevation_def decodeElevation_def Let_def
        split: option.splits)

lemma decodeLoop_known:
  assumes "enc = ''terrarium'' \<or> enc = ''mapbox''"
  shows "decodeLoop d enc ixs (es, b)
           = Inr (es @ map (elevationOf d enc) ixs,
                  fold updateRange (map (elevationOf d enc) ixs) b)"
  by (induction ixs arbitrary: es b) (simp_all add: pixelElevation_known[OF assms])

lemma updateRange_widens:
  assumes "lo \<le> e" "e \<le> hi"
  shows "\<exists>lo' hi'. updateRange v (Some (lo, hi)) = Some (lo', hi') \<and> lo' \<le> e \<and> e \<le> hi'"
  using assms by (cases v) auto

lemma range_stays:
  assumes "lo \<le> e" "e \<le> hi"
  shows "\<exists>lo' hi'. fold updateRange vs (Some (lo, hi)) = Some (lo', hi') \<and> lo' \<le> e \<and> e \<le> hi'"
  using assms
proof (induction vs arbitrary: lo hi)
  case Nil
  then show ?case by simp
next
  case (Cons v vs)
  from updateRange_widens[OF Cons.prems, of v]
  obtain lo' hi' where u: "updateRange v (Some (lo, hi)) = Some (lo', hi')" "lo' \<le> e" "e \<le> hi'"
    by blast
  show ?case using Cons.IH[OF u(2,3)] u(1) by simp
qed

lemma range_covers:
  assumes "Some e \<in> set vs"
  shows "\<exists>lo hi. fold updateRange vs b = Some (lo, hi) \<and> lo \<le> e \<and> e \<le> hi"
  using assms
proof (induction vs arbitrary: b)
  case Nil
  then show ?case by simp
next
  case (Cons v vs)
  show ?case
  proof (cases "v = Some e")
    case True
    have "\<exists>lo hi. updateRange (Some e) b = Some (lo, hi) \<and> lo \<le> e \<and> e \<le> hi"
      by (cases b) auto
    then obtain lo hi where u: "updateRange (Some e) b = Some (lo, hi)" "lo \<le> e" "e \<le> hi"
      by blast
    show ?thesis using range_stays[OF u(2,3), of vs] u(1) True by simp
  next
    case False
    then have "Some e \<in> set vs" using Cons.prems by simp
    then show ?thesis using Cons.IH by simp
  qed
qed

lemma mapbox_exact:
  "decodeElevation r g b ''mapbox''
     = Inr (fl (- 10000 + fl ((byte r * 65536 + byte g * 256 + byte b) * fl (1 / 10))))"
  unfolding decodeElevation_def mapbox_code by (simp add: fadd_def fmul_def)

lemma sentinel_mapbox: "decodeElevation 128 128 128 ''mapbox'' = Inr sentinelMapbox"
  by (simp add: mapbox_exact sentinelMapbox_def byte_def)

lemma sentinel_terrarium: "decodeElevation 128 128 128 ''terrarium'' = Inr (257 / 2)"
  by (simp add: terrarium_exact byte_def)

lemma sentinelMapbox_value: "sentinelMapbox = 7148117506706637 / 8589934592"
proof -
  have a: "fl (8421504 * (3602879701896397 / 36028797018963968)) = 7234016852626637 / 8589934592"
  proof -
    have "fl (8421504 * (3602879701896397 / 36028797018963968))
            = of_int 7234016852626637 * 2 powi (19 - 52)"
      by (rule fl_eval) simp_all
    then show ?thesis by simp
  qed
  have b: "fl (- 10000 + 7234016852626637 / 8589934592) = 7148117506706637 / 8589934592"
    using fl_exact[of 7148117506706637 "- 33"] by simp
  show ?thesis unfolding sentinelMapbox_def by (simp only: fl_tenth a b)
qed

lemma sentinel_pixel_mapbox:
  assumes "sentinelAt d k"
  shows "elevationOf d ''mapbox'' k = Some sentinelMapbox"
proof -
  have g: "ta_get d (int k * 4) = Some 128" "ta_get d (int k * 4 + 1) = Some 128"
    "ta_get d (int k * 4 + 2) = Some 128"
    using assms
    by (simp_all add: sentinelAt_def ta_get_def nat_add_distrib nat_mult_distrib mult.commute)
  show ?thesis
    by (simp add: elevationOf_def pixelElevation_def Let_def g sentinel_mapbox)
qed


lemma fetch_length: "length (fst (fetchTileWithBuffer pmtiles z x y)) = 9"
  by (simp add: fetchTileWithBuffer_def)

lemma fetch_positions: "snd (fetchTileWithBuffer pmtiles z x y) = offsets"
  by (simp add: fetchTileWithBuffer_def)

text \<open>
  C10, as the code has it. The sentinel \<open>(128,128,128)\<close> decodes to exactly 128.5 in
  the Terrarium encoding and to \<open>-10000 + 8421504 * 0.1\<close> in the Mapbox encoding, which in
  binary64 is \<open>7148117506706637 / 2^33\<close>, between 832150.4 and 832150.400000001. For a
  request whose tiles are square and of one size, with at least one of the nine tiles
  missing and at least one present, the canvas has a sentinel cell; in Mapbox mode
  its elevation is in the elevation grid, and \<open>maxEle\<close>, from which the thresholds are
  planned, is at least this value.
\<close>

theorem mapbox_sentinel_in_grid:
  assumes tiles: "tiles = fst (fetchTileWithBuffer pmtiles z x y)"
    and sq: "\<forall>t. Some t \<in> set tiles \<longrightarrow> twidth t = n \<and> theight t = n"
    and n: "0 < n"
    and miss: "None \<in> set tiles"
    and pres: "\<exists>t. Some t \<in> set tiles"
  shows "decodeElevation 128 128 128 ''terrarium'' = Inr (257 / 2)
       \<and> decodeElevation 128 128 128 ''mapbox'' = Inr sentinelMapbox
       \<and> sentinelMapbox = 7148117506706637 / 8589934592
       \<and> 8321504 / 10 < sentinelMapbox \<and> sentinelMapbox < 8321504 / 10 + 1 / 10 ^ 9
       \<and> (\<exists>st es lo hi.
            stitchTiles tiles (snd (fetchTileWithBuffer pmtiles z x y)) 1 = Inr (Some st)
          \<and> decodeLoop (cdata st) ''mapbox'' [0..<cwidth st * cheight st] ([], None)
              = Inr (es, Some (lo, hi))
          \<and> Some sentinelMapbox \<in> set es \<and> sentinelMapbox \<le> hi
          \<and> generateContours trace (cdata st) (cwidth st) (cheight st) ''mapbox'' i M
              = (case thresholdsOf (Some (lo, hi)) i of
                   None \<Rightarrow> Diverges
                 | Some thresholds \<Rightarrow>
                     Returns (map (\<lambda>f. feature.extend f \<lparr>isMajor = classify (cvalue f) M\<rparr>)
                                (contours trace (cwidth st) (cheight st) thresholds es))))"
proof -
  have len: "length tiles = 9" unfolding tiles by (rule fetch_length)
  from miss obtain j where j: "j < 9" "tiles ! j = None"
    using len by (metis in_set_conv_nth)
  from pres obtain t0 where t0: "Some t0 \<in> set tiles" by blast
  have sq': "\<And>t. Some t \<in> set tiles \<Longrightarrow> twidth t = n \<and> theight t = n" using sq by blast
  from canvas_has_sentinel[OF len sq' n j t0]
  obtain st k where st: "stitchTiles tiles offsets 1 = Inr (Some st)"
    and k: "k < cwidth st * cheight st" and s: "sentinelAt (cdata st) k"
    by blast
  define es where "es = map (elevationOf (cdata st) ''mapbox'') [0..<cwidth st * cheight st]"
  have dl: "decodeLoop (cdata st) ''mapbox'' [0..<cwidth st * cheight st] ([], None)
              = Inr (es, fold updateRange es None)"
    unfolding es_def by (simp add: decodeLoop_known)
  have "es ! k = Some sentinelMapbox"
    using k sentinel_pixel_mapbox[OF s] by (simp add: es_def)
  moreover have "k < length es" using k by (simp add: es_def)
  ultimately have mem: "Some sentinelMapbox \<in> set es" by (metis nth_mem)
  from range_covers[OF mem, of None]
  obtain lo hi where r: "fold updateRange es None = Some (lo, hi)" "sentinelMapbox \<le> hi"
    by blast
  have gc: "generateContours trace (cdata st) (cwidth st) (cheight st) ''mapbox'' i M
              = (case thresholdsOf (Some (lo, hi)) i of
                   None \<Rightarrow> Diverges
                 | Some thresholds \<Rightarrow>
                     Returns (map (\<lambda>f. feature.extend f \<lparr>isMajor = classify (cvalue f) M\<rparr>)
                                (contours trace (cwidth st) (cheight st) thresholds es)))"
    by (simp add: generateContours_def dl r(1))
  have v: "8321504 / 10 < sentinelMapbox" "sentinelMapbox < 8321504 / 10 + 1 / 10 ^ 9"
    by (simp_all add: sentinelMapbox_value)
  have "\<exists>st es lo hi.
            stitchTiles tiles (snd (fetchTileWithBuffer pmtiles z x y)) 1 = Inr (Some st)
          \<and> decodeLoop (cdata st) ''mapbox'' [0..<cwidth st * cheight st] ([], None)
              = Inr (es, Some (lo, hi))
          \<and> Some sentinelMapbox \<in> set es \<and> sentinelMapbox \<le> hi
          \<and> generateContours trace (cdata st) (cwidth st) (cheight st) ''mapbox'' i M
              = (case thresholdsOf (Some (lo, hi)) i of
                   None \<Rightarrow> Diverges
                 | Some thresholds \<Rightarrow>
                     Returns (map (\<lambda>f. feature.extend f \<lparr>isMajor = classify (cvalue f) M\<rparr>)
                                (contours trace (cwidth st) (cheight st) thresholds es)))"
    unfolding fetch_positions using st dl r mem gc by auto
  then show ?thesis
    using sentinel_terrarium sentinel_mapbox sentinelMapbox_value v by blast
qed


text \<open>
  The theorem on a request in Mapbox mode whose center tile is one pixel and whose
  eight neighbours are missing.
\<close>

theorem mapbox_sentinel_in_grid_witness:
  "(0::nat) < 1
   \<and> None \<in> set (fst (fetchTileWithBuffer (onlyCenter pixelTile) 0 0 0))
   \<and> Some pixelTile \<in> set (fst (fetchTileWithBuffer (onlyCenter pixelTile) 0 0 0))
   \<and> stitchTiles (fst (fetchTileWithBuffer (onlyCenter pixelTile) 0 0 0))
        (snd (fetchTileWithBuffer (onlyCenter pixelTile) 0 0 0)) 1 = Inr (Some pixelCanvas)
   \<and> (\<exists>es lo hi.
         decodeLoop (cdata pixelCanvas) ''mapbox'' [0..<cwidth pixelCanvas * cheight pixelCanvas]
           ([], None) = Inr (es, Some (lo, hi))
       \<and> Some sentinelMapbox \<in> set es \<and> sentinelMapbox \<le> hi)"
proof -
  define tiles where "tiles = fst (fetchTileWithBuffer (onlyCenter pixelTile) 0 0 0)"
  have t: "tiles = [None, None, None, None, Some pixelTile, None, None, None, None]"
    by (simp add: tiles_def fetch_onlyCenter)
  have sq: "\<forall>t. Some t \<in> set tiles \<longrightarrow> twidth t = 1 \<and> theight t = 1"
    by (auto simp: t pixelTile_def)
  have n: "(0::nat) < 1" by simp
  have miss: "None \<in> set tiles" by (simp add: t)
  have pres: "\<exists>t. Some t \<in> set tiles" by (auto simp: t)
  from mapbox_sentinel_in_grid[OF tiles_def sq n miss pres]
  obtain st es lo hi where
    st: "stitchTiles tiles (snd (fetchTileWithBuffer (onlyCenter pixelTile) 0 0 0)) 1
           = Inr (Some st)"
    and dl: "decodeLoop (cdata st) ''mapbox'' [0..<cwidth st * cheight st] ([], None)
               = Inr (es, Some (lo, hi))"
    and m: "Some sentinelMapbox \<in> set es" "sentinelMapbox \<le> hi"
    by blast
  have "st = pixelCanvas" using st pixel_stitched[of 0] by (simp add: tiles_def)
  then show ?thesis
    using dl m pixel_stitched[of 0] n miss t unfolding tiles_def by auto
qed

text \<open>
  C10 as stated fails for a request all of whose tiles are missing: its neighbours
  are missing, no canvas is assembled, no elevation grid exists, and the answer is 404.
\<close>

theorem mapbox_all_missing_counterexample:
  "None \<in> set (fst (fetchTileWithBuffer noTiles 0 0 0))
   \<and> stitchTiles (fst (fetchTileWithBuffer noTiles 0 0 0))
        (snd (fetchTileWithBuffer noTiles 0 0 0)) 1 = Inr None
   \<and> tileRequest [''dem'' \<mapsto> noTiles] ''mapbox'' 10 50 noRings layerHeaderEncoder ''dem'' 0 0 0
       = Some Status404"
  by (simp add: fetchTileWithBuffer_def offsets_def noTiles_def stitchTiles_def tileRequest_def)

end
